theory Spec2Isabelle
  imports Main "HOL-Library.Word"
begin

section \<open>Flattened records\<close>

text \<open>
  The importer of \<^verbatim>\<open>build.py\<close> reads two legends exports. Each record element
  the parser hands over is flattened by \<^verbatim>\<open>xml_to_dict\<close> into a Python
  dictionary whose values are strings, nested dictionaries, or lists of those.

  An element is its tag, its text (\<^verbatim>\<open>None\<close> when absent) and its child
  elements in document order; comments and processing instructions, which the
  exports do not contain, are not modelled. A dictionary is an association list in
  insertion order with distinct keys, as Python dictionaries keep it; assigning to
  a key that is present keeps its position. A character of a string stands for a
  code point below 256.
\<close>

datatype element = Element (tag: string) (text_content: "string option") (children: "element list")

datatype pyval = Str string | Dict "(string \<times> pyval) list" | Lst "pyval list"

type_synonym pydict = "(string \<times> pyval) list"

text \<open>\<^verbatim>\<open>d[k] = v\<close>\<close>

fun dict_set :: "string \<Rightarrow> 'v \<Rightarrow> (string \<times> 'v) list \<Rightarrow> (string \<times> 'v) list" where
  "dict_set k v [] = [(k, v)]"
| "dict_set k v ((k', v') # kvs) =
     (if k' = k then (k', v) # kvs else (k', v') # dict_set k v kvs)"

text \<open>\<^verbatim>\<open>child.text or ''\<close>\<close>

definition text_or_empty :: "string option \<Rightarrow> string" where
  "text_or_empty t = (case t of None \<Rightarrow> '''' | Some s \<Rightarrow> s)"

text \<open>
  The body of the loop of \<^verbatim>\<open>xml_to_dict\<close> after the value is computed: a tag
  seen before turns its entry into a list (unless it is one already) and appends.
\<close>

definition add_value :: "string \<Rightarrow> pyval \<Rightarrow> pydict \<Rightarrow> pydict" where
  "add_value tg v result =
     (case map_of result tg of
        Some (Lst vs) \<Rightarrow> dict_set tg (Lst (vs @ [v])) result
      | Some old \<Rightarrow> dict_set tg (Lst [old, v]) result
      | None \<Rightarrow> dict_set tg v result)"

fun xml_to_dict :: "element \<Rightarrow> pydict" where
  "xml_to_dict (Element tg tx cs) =
     fold (\<lambda>child result.
             add_value (tag child)
               (if children child \<noteq> [] then Dict (xml_to_dict child)
                else Str (text_or_empty (text_content child)))
               result)
          cs []"

text \<open>The value the loop computes for one child, named for the statements below.\<close>

definition child_value :: "element \<Rightarrow> pyval" where
  "child_value child =
     (if children child \<noteq> [] then Dict (xml_to_dict child)
      else Str (text_or_empty (text_content child)))"

definition promotion_example :: element where
  "promotion_example =
     Element ''rec'' None
       [Element ''x'' (Some ''1'') [], Element ''y'' None [],
        Element ''z'' None [Element ''w'' (Some ''3'') []], Element ''x'' (Some ''2'') []]"


section \<open>The sanitizer\<close>

text \<open>
  \<^verbatim>\<open>sanitize_xml_file\<close> reads the input in chunks of one mebibyte, decodes each
  chunk from code page 437, deletes the characters matched by
  \<^verbatim>\<open>[\x00-\x08\x0b\x0c\x0e-\x1f]\<close>, rewrites the encoding declaration in the first
  chunk and writes the chunk UTF-8 encoded to a temporary file.

  Bytes are 8-bit words and a Python string is the list of its code points. The
  codec tables are Python's: code page 437 maps the bytes below 128 to the same
  code points and the upper half by the table below, so no byte is undecodable and
  \<^verbatim>\<open>errors='replace'\<close> never acts.
\<close>

datatype error = UnicodeEncodeError | BindingError | XMLSyntaxError

type_synonym byte = "8 word"

definition cp437_high :: "nat list" where
  "cp437_high =
    [0x00C7,0x00FC,0x00E9,0x00E2,0x00E4,0x00E0,0x00E5,0x00E7,0x00EA,0x00EB,0x00E8,0x00EF,0x00EE,0x00EC,0x00C4,0x00C5,
     0x00C9,0x00E6,0x00C6,0x00F4,0x00F6,0x00F2,0x00FB,0x00F9,0x00FF,0x00D6,0x00DC,0x00A2,0x00A3,0x00A5,0x20A7,0x0192,
     0x00E1,0x00ED,0x00F3,0x00FA,0x00F1,0x00D1,0x00AA,0x00BA,0x00BF,0x2310,0x00AC,0x00BD,0x00BC,0x00A1,0x00AB,0x00BB,
     0x2591,0x2592,0x2593,0x2502,0x2524,0x2561,0x2562,0x2556,0x2555,0x2563,0x2551,0x2557,0x255D,0x255C,0x255B,0x2510,
     0x2514,0x2534,0x252C,0x251C,0x2500,0x253C,0x255E,0x255F,0x255A,0x2554,0x2569,0x2566,0x2560,0x2550,0x256C,0x2567,
     0x2568,0x2564,0x2565,0x2559,0x2558,0x2552,0x2553,0x256B,0x256A,0x2518,0x250C,0x2588,0x2584,0x258C,0x2590,0x2580,
     0x03B1,0x00DF,0x0393,0x03C0,0x03A3,0x03C3,0x00B5,0x03C4,0x03A6,0x0398,0x03A9,0x03B4,0x221E,0x03C6,0x03B5,0x2229,
     0x2261,0x00B1,0x2265,0x2264,0x2320,0x2321,0x00F7,0x2248,0x00B0,0x2219,0x00B7,0x221A,0x207F,0x00B2,0x25A0,0x00A0]"

text \<open>\<^verbatim>\<open>chunk.decode('cp437', errors='replace')\<close>\<close>

definition cp437_decode :: "byte list \<Rightarrow> nat list" where
  "cp437_decode chunk =
     map (\<lambda>b. if unat b < 128 then unat b else cp437_high ! (unat b - 128)) chunk"

text \<open>The character class of \<^verbatim>\<open>invalid_chars\<close> and its substitution by the empty string.\<close>

definition invalid_char :: "nat \<Rightarrow> bool" where
  "invalid_char c \<longleftrightarrow> c \<le> 0x08 \<or> c = 0x0B \<or> c = 0x0C \<or> (0x0E \<le> c \<and> c \<le> 0x1F)"

definition invalid_chars_sub :: "nat list \<Rightarrow> nat list" where
  "invalid_chars_sub tx = filter (\<lambda>c. \<not> invalid_char c) tx"

text \<open>
  \<^verbatim>\<open>encoding=["']CP437["']\<close> under \<^verbatim>\<open>re.IGNORECASE\<close>, one set of code points
  per position. Python matches a letter of the pattern against both its cases and,
  for \<open>i\<close>, against U+0130 and U+0131 as well; the two quotes need not agree.
\<close>

definition encoding_pattern :: "nat list list" where
  "encoding_pattern =
     [[0x65, 0x45], [0x6E, 0x4E], [0x63, 0x43], [0x6F, 0x4F], [0x64, 0x44],
      [0x69, 0x49, 0x130, 0x131], [0x6E, 0x4E], [0x67, 0x47], [0x3D],
      [0x22, 0x27],
      [0x63, 0x43], [0x70, 0x50], [0x34], [0x33], [0x37],
      [0x22, 0x27]]"

definition encoding_match :: "nat list \<Rightarrow> bool" where
  "encoding_match tx \<longleftrightarrow>
     length encoding_pattern \<le> length tx \<and>
     list_all2 (\<lambda>cls c. c \<in> set cls) encoding_pattern (take (length encoding_pattern) tx)"

text \<open>
  Lower case of an ASCII letter, to state that every letter casing of
  \<^verbatim>\<open>encoding="CP437"\<close> is a match.
\<close>

definition ascii_lower :: "nat \<Rightarrow> nat" where
  "ascii_lower c = (if 0x41 \<le> c \<and> c \<le> 0x5A then c + 32 else c)"

text \<open>The replacement \<^verbatim>\<open>encoding="UTF-8"\<close>.\<close>

definition utf8_declaration :: "nat list" where
  "utf8_declaration =
     [0x65, 0x6E, 0x63, 0x6F, 0x64, 0x69, 0x6E, 0x67, 0x3D, 0x22, 0x55, 0x54, 0x46, 0x2D, 0x38, 0x22]"

text \<open>
  \<^verbatim>\<open>encoding_pattern.sub\<close>: scanning from the left, every match is replaced and the
  scan resumes behind it (a match is sixteen characters long).
\<close>

fun encoding_pattern_sub :: "nat list \<Rightarrow> nat list" where
  "encoding_pattern_sub [] = []"
| "encoding_pattern_sub (c # cs) =
     (if encoding_match (c # cs) then utf8_declaration @ encoding_pattern_sub (drop 15 cs)
      else c # encoding_pattern_sub cs)"

text \<open>
  \<^verbatim>\<open>str.encode('utf-8')\<close>: one to four bytes per code point; a surrogate (or a
  number that is no code point) raises.
\<close>

definition byte_of_nat :: "nat \<Rightarrow> byte" where
  "byte_of_nat n = of_nat n"

definition utf8_encode_char :: "nat \<Rightarrow> error + byte list" where
  "utf8_encode_char c =
     (if c < 0x80 then Inr [byte_of_nat c]
      else if c < 0x800 then Inr [byte_of_nat (0xC0 + c div 0x40), byte_of_nat (0x80 + c mod 0x40)]
      else if 0xD800 \<le> c \<and> c \<le> 0xDFFF then Inl UnicodeEncodeError
      else if c < 0x10000 then
        Inr [byte_of_nat (0xE0 + c div 0x1000), byte_of_nat (0x80 + c div 0x40 mod 0x40),
             byte_of_nat (0x80 + c mod 0x40)]
      else if c < 0x110000 then
        Inr [byte_of_nat (0xF0 + c div 0x40000), byte_of_nat (0x80 + c div 0x1000 mod 0x40),
             byte_of_nat (0x80 + c div 0x40 mod 0x40), byte_of_nat (0x80 + c mod 0x40)]
      else Inl UnicodeEncodeError)"

fun utf8_encode :: "nat list \<Rightarrow> error + byte list" where
  "utf8_encode [] = Inr []"
| "utf8_encode (c # cs) =
     (case utf8_encode_char c of
        Inl e \<Rightarrow> Inl e
      | Inr bs \<Rightarrow> (case utf8_encode cs of Inl e \<Rightarrow> Inl e | Inr rest \<Rightarrow> Inr (bs @ rest)))"

text \<open>The string written for one chunk, before it is encoded.\<close>

definition sanitize_text :: "bool \<Rightarrow> byte list \<Rightarrow> nat list" where
  "sanitize_text first_chunk chunk =
     (let tx = cp437_decode chunk;
          tx = invalid_chars_sub tx
      in if first_chunk then encoding_pattern_sub tx else tx)"

text \<open>
  The \<^verbatim>\<open>while True\<close> loop. \<open>n\<close> is the chunk size, \<open>infile\<close> the bytes not yet
  read, \<open>outfile\<close> the bytes written so far; an exception leaves what was written.
\<close>

function sanitize_loop :: "nat \<Rightarrow> bool \<Rightarrow> byte list \<Rightarrow> byte list \<Rightarrow> byte list \<times> error option" where
  "sanitize_loop n first_chunk infile outfile =
     (if take n infile = [] then (outfile, None)
      else case utf8_encode (sanitize_text first_chunk (take n infile)) of
             Inl e \<Rightarrow> (outfile, Some e)
           | Inr bs \<Rightarrow> sanitize_loop n False (drop n infile) (outfile @ bs))"
  by pat_completeness auto
termination
  by (relation "measure (\<lambda>(n, f, infile, outfile). length infile)") auto

declare sanitize_loop.simps [simp del]

definition sanitize_xml_file :: "byte list \<Rightarrow> byte list \<times> error option" where
  "sanitize_xml_file infile = sanitize_loop (1024 * 1024) True infile []"

text \<open>The sanitized string of a run of bytes outside the first chunk.\<close>

definition clean :: "byte list \<Rightarrow> nat list" where
  "clean chunk = invalid_chars_sub (cp437_decode chunk)"

text \<open>
  Example inputs. The first is \<^verbatim>\<open><?xml encoding="CP437"?><a>\<close>, the bytes 01, 9E and
  0A, and \<^verbatim>\<open></a>\<close>. The second is
  \<^verbatim>\<open><?xml encoding="CP437"?><a>encoding="CP437"</a>\<close>: the declaration occurs a
  second time, as the text of an element.
\<close>

definition control_doc :: "byte list" where
  "control_doc =
     [0x3C, 0x3F, 0x78, 0x6D, 0x6C, 0x20,
      0x65, 0x6E, 0x63, 0x6F, 0x64, 0x69, 0x6E, 0x67, 0x3D, 0x22, 0x43, 0x50, 0x34, 0x33, 0x37, 0x22,
      0x3F, 0x3E, 0x3C, 0x61, 0x3E, 0x01, 0x9E, 0x0A, 0x3C, 0x2F, 0x61, 0x3E]"

definition two_declarations_doc :: "byte list" where
  "two_declarations_doc =
     [0x3C, 0x3F, 0x78, 0x6D, 0x6C, 0x20,
      0x65, 0x6E, 0x63, 0x6F, 0x64, 0x69, 0x6E, 0x67, 0x3D, 0x22, 0x43, 0x50, 0x34, 0x33, 0x37, 0x22,
      0x3F, 0x3E, 0x3C, 0x61, 0x3E,
      0x65, 0x6E, 0x63, 0x6F, 0x64, 0x69, 0x6E, 0x67, 0x3D, 0x22, 0x43, 0x50, 0x34, 0x33, 0x37, 0x22,
      0x3C, 0x2F, 0x61, 0x3E]"

text \<open>\<^verbatim>\<open>encoding="CP437"\<close> and \<^verbatim>\<open>encoding="UTF-8"\<close> as bytes.\<close>

definition cp437_declaration_bytes :: "byte list" where
  "cp437_declaration_bytes =
     [0x65, 0x6E, 0x63, 0x6F, 0x64, 0x69, 0x6E, 0x67, 0x3D, 0x22, 0x43, 0x50, 0x34, 0x33, 0x37, 0x22]"

definition utf8_declaration_bytes :: "byte list" where
  "utf8_declaration_bytes =
     [0x65, 0x6E, 0x63, 0x6F, 0x64, 0x69, 0x6E, 0x67, 0x3D, 0x22, 0x55, 0x54, 0x46, 0x2D, 0x38, 0x22]"


section \<open>The relational store\<close>

text \<open>
  Modelled from the spec: \<^verbatim>\<open>schema.sql\<close> is not among the sources. A table is the list
  of its rows in insertion order and a row maps column names to values; a column that
  an \<^verbatim>\<open>INSERT\<close> does not name is \<^verbatim>\<open>NULL\<close>. Following the spec (every record
  id is unique within its dimension table, enforced by upsert-by-id; fact tables allow
  duplicates), \<^verbatim>\<open>id\<close> is the key that \<^verbatim>\<open>INSERT OR REPLACE\<close> resolves conflicts on,
  and a plain \<^verbatim>\<open>INSERT\<close> never conflicts. Values are stored and compared as bound;
  a \<^verbatim>\<open>NULL\<close> id conflicts with nothing.
\<close>

datatype sqlval = Null | Text string | Num int

type_synonym row = "(string \<times> sqlval) list"

type_synonym database = "string \<Rightarrow> row list"

definition col :: "row \<Rightarrow> string \<Rightarrow> sqlval" where
  "col r c = (case map_of r c of None \<Rightarrow> Null | Some v \<Rightarrow> v)"

text \<open>
  Binding a Python value to a \<^verbatim>\<open>?\<close>: \<^verbatim>\<open>None\<close> and strings bind, a dictionary or a
  list makes \<^verbatim>\<open>cursor.execute\<close> raise.
\<close>

fun bind_param :: "pyval option \<Rightarrow> error + sqlval" where
  "bind_param None = Inr Null"
| "bind_param (Some (Str s)) = Inr (Text s)"
| "bind_param (Some (Dict d)) = Inl BindingError"
| "bind_param (Some (Lst l)) = Inl BindingError"

fun bind_all :: "(error + sqlval) list \<Rightarrow> error + sqlval list" where
  "bind_all [] = Inr []"
| "bind_all (p # ps) =
     (case p of
        Inl e \<Rightarrow> Inl e
      | Inr v \<Rightarrow> (case bind_all ps of Inl e \<Rightarrow> Inl e | Inr vs \<Rightarrow> Inr (v # vs)))"

text \<open>\<^verbatim>\<open>INSERT INTO tbl (cols) VALUES (?, ...)\<close>\<close>

definition insert_into ::
  "string \<Rightarrow> string list \<Rightarrow> (error + sqlval) list \<Rightarrow> database \<Rightarrow> error + database" where
  "insert_into tbl cols params d =
     (case bind_all params of
        Inl e \<Rightarrow> Inl e
      | Inr vals \<Rightarrow> Inr (d(tbl := d tbl @ [zip cols vals])))"

text \<open>\<^verbatim>\<open>INSERT OR REPLACE INTO tbl (cols) VALUES (?, ...)\<close>\<close>

definition replace_row :: "row \<Rightarrow> row list \<Rightarrow> row list" where
  "replace_row r rows =
     (if col r ''id'' = Null then rows @ [r]
      else filter (\<lambda>x. col x ''id'' \<noteq> col r ''id'') rows @ [r])"

definition insert_or_replace ::
  "string \<Rightarrow> string list \<Rightarrow> (error + sqlval) list \<Rightarrow> database \<Rightarrow> error + database" where
  "insert_or_replace tbl cols params d =
     (case bind_all params of
        Inl e \<Rightarrow> Inl e
      | Inr vals \<Rightarrow> Inr (d(tbl := replace_row (zip cols vals) (d tbl))))"

text \<open>\<^verbatim>\<open>UPDATE tbl SET col = ?, ... WHERE id = ?\<close>; the last parameter is the id.\<close>

definition set_columns :: "row \<Rightarrow> row \<Rightarrow> row" where
  "set_columns new r = fold (\<lambda>(c, v). dict_set c v) new r"

definition update_where_id ::
  "string \<Rightarrow> string list \<Rightarrow> (error + sqlval) list \<Rightarrow> database \<Rightarrow> error + database" where
  "update_where_id tbl cols params d =
     (case bind_all params of
        Inl e \<Rightarrow> Inl e
      | Inr vals \<Rightarrow>
          Inr (d(tbl := map (\<lambda>r. if last vals \<noteq> Null \<and> col r ''id'' = last vals
                                 then set_columns (zip cols (butlast vals)) r else r)
                            (d tbl))))"

text \<open>\<^verbatim>\<open>DELETE FROM tbl\<close> for every table of \<^verbatim>\<open>clear_tables\<close>.\<close>

definition tables :: "string list" where
  "tables =
     [''world'', ''regions'', ''underground_regions'', ''landmasses'', ''mountain_peaks'',
      ''sites'', ''structures'', ''site_properties'', ''entities'', ''entity_positions'',
      ''entity_position_assignments'', ''historical_figures'', ''hf_entity_links'',
      ''hf_site_links'', ''hf_relationships'', ''artifacts'', ''historical_events'',
      ''written_content'', ''written_content_styles'', ''written_content_references'']"

definition clear_tables :: "database \<Rightarrow> database" where
  "clear_tables d = fold (\<lambda>tbl d. d(tbl := [])) tables d"


section \<open>The record importers\<close>

text \<open>
  The importers are closures of \<^verbatim>\<open>run_import\<close> over the cursor and the counters
  they report; the state they share is a record of the database behind the cursor
  and those counters. An importer either returns the new state or raises.
\<close>

record import_state =
  db :: database
  structure_count :: nat
  pos_count :: nat
  assign_count :: nat
  entity_link_count :: nat
  site_link_count :: nat
  style_count :: nat
  ref_count :: nat

type_synonym importer = "pydict \<Rightarrow> import_state \<Rightarrow> error + import_state"

definition execute :: "(database \<Rightarrow> error + database) \<Rightarrow> import_state \<Rightarrow> error + import_state" where
  "execute stmt st = (case stmt (db st) of Inl e \<Rightarrow> Inl e | Inr d \<Rightarrow> Inr (st\<lparr>db := d\<rparr>))"

definition and_then :: "error + 'a \<Rightarrow> ('a \<Rightarrow> error + 'b) \<Rightarrow> error + 'b" where
  "and_then r f = (case r of Inl e \<Rightarrow> Inl e | Inr x \<Rightarrow> f x)"

text \<open>A \<^verbatim>\<open>for\<close> loop whose body may raise.\<close>

fun for_each :: "'a list \<Rightarrow> ('a \<Rightarrow> 's \<Rightarrow> error + 's) \<Rightarrow> 's \<Rightarrow> error + 's" where
  "for_each [] body st = Inr st"
| "for_each (x # xs) body st =
     (case body x st of Inl e \<Rightarrow> Inl e | Inr st' \<Rightarrow> for_each xs body st')"

text \<open>
  What a \<^verbatim>\<open>for\<close> loop iterates over: the elements of a list, the characters of a
  string, the keys of a dictionary.
\<close>

fun py_iter :: "pyval \<Rightarrow> pyval list" where
  "py_iter (Lst vs) = vs"
| "py_iter (Str s) = map (\<lambda>c. Str [c]) s"
| "py_iter (Dict d) = map (\<lambda>kv. Str (fst kv)) d"

text \<open>Truth value of \<^verbatim>\<open>data.get(k)\<close>, and \<^verbatim>\<open>a or b\<close>.\<close>

fun truthy :: "pyval option \<Rightarrow> bool" where
  "truthy None = False"
| "truthy (Some (Str s)) = (s \<noteq> [])"
| "truthy (Some (Dict d)) = (d \<noteq> [])"
| "truthy (Some (Lst l)) = (l \<noteq> [])"

definition py_or :: "pyval option \<Rightarrow> pyval option \<Rightarrow> pyval option" where
  "py_or a b = (if truthy a then a else b)"

text \<open>\<^verbatim>\<open>data.get(k, default)\<close>, and \<^verbatim>\<open>v.get(k)\<close> on a value known to be a dictionary.\<close>

definition get_or :: "pydict \<Rightarrow> string \<Rightarrow> pyval \<Rightarrow> pyval" where
  "get_or data k dflt = (case map_of data k of None \<Rightarrow> dflt | Some v \<Rightarrow> v)"

text \<open>\<^verbatim>\<open>if isinstance(x, dict): x = [x]\<close> and \<^verbatim>\<open>if isinstance(x, str): x = [x]\<close>\<close>

fun list_if_dict :: "pyval \<Rightarrow> pyval" where
  "list_if_dict (Dict d) = Lst [Dict d]"
| "list_if_dict v = v"

fun list_if_str :: "pyval \<Rightarrow> pyval" where
  "list_if_str (Str s) = Lst [Str s]"
| "list_if_str v = v"

definition import_region :: importer where
  "import_region data st =
     execute (insert_or_replace ''regions'' [''id'', ''name'', ''type'']
       [bind_param (map_of data ''id''), bind_param (map_of data ''name''),
        bind_param (map_of data ''type'')]) st"

definition import_underground :: importer where
  "import_underground data st =
     execute (insert_or_replace ''underground_regions'' [''id'', ''type'', ''depth'']
       [bind_param (map_of data ''id''), bind_param (map_of data ''type''),
        bind_param (map_of data ''depth'')]) st"

definition import_site :: importer where
  "import_site data st =
     execute (insert_or_replace ''sites'' [''id'', ''name'', ''type'', ''coords'', ''rectangle'']
       [bind_param (map_of data ''id''), bind_param (map_of data ''name''),
        bind_param (map_of data ''type''), bind_param (map_of data ''coords''),
        bind_param (map_of data ''rectangle'')]) st"

definition import_artifact :: importer where
  "import_artifact data st =
     execute (insert_or_replace ''artifacts''
       [''id'', ''name'', ''item_type'', ''item_subtype'', ''mat'']
       [bind_param (map_of data ''id''),
        bind_param (py_or (map_of data ''name'') (map_of data ''name_string'')),
        bind_param (map_of data ''item_type''), bind_param (map_of data ''item_subtype''),
        bind_param (map_of data ''mat'')]) st"

definition import_landmass :: importer where
  "import_landmass data st =
     execute (insert_into ''landmasses'' [''id'', ''name'', ''coord_1'', ''coord_2'']
       [bind_param (map_of data ''id''), bind_param (map_of data ''name''),
        bind_param (map_of data ''coord_1''), bind_param (map_of data ''coord_2'')]) st"

definition import_peak :: importer where
  "import_peak data st =
     execute (insert_into ''mountain_peaks'' [''id'', ''name'', ''coords'', ''height'', ''is_volcano'']
       [bind_param (map_of data ''id''), bind_param (map_of data ''name''),
        bind_param (map_of data ''coords''), bind_param (map_of data ''height''),
        Inr (Num (if map_of data ''is_volcano'' \<noteq> None then 1 else 0))]) st"

text \<open>The body of the loop over \<^verbatim>\<open>struct_list\<close>.\<close>

definition import_structure :: "pyval option \<Rightarrow> pyval \<Rightarrow> import_state \<Rightarrow> error + import_state" where
  "import_structure site_id struct st =
     (case struct of
        Dict s \<Rightarrow>
          and_then
            (execute (insert_into ''structures''
               [''local_id'', ''site_id'', ''name'', ''name2'', ''type'']
               [bind_param (map_of s ''id''), bind_param site_id, bind_param (map_of s ''name''),
                bind_param (map_of s ''name2''), bind_param (map_of s ''type'')]) st)
            (\<lambda>st. Inr (st\<lparr>structure_count := structure_count st + 1\<rparr>))
      | _ \<Rightarrow> Inr st)"

definition import_site_plus :: importer where
  "import_site_plus data st =
     (let site_id = map_of data ''id'' in
      if truthy site_id then
        and_then
          (execute (update_where_id ''sites'' [''civ_id'', ''cur_owner_id'']
             [bind_param (map_of data ''civ_id''), bind_param (map_of data ''cur_owner_id''),
              bind_param site_id]) st)
          (\<lambda>st. case get_or data ''structures'' (Dict []) of
                    Dict structures \<Rightarrow>
                      for_each (py_iter (list_if_dict (get_or structures ''structure'' (Lst []))))
                        (import_structure site_id) st
                  | _ \<Rightarrow> Inr st)
      else Inr st)"

definition import_position :: "pyval option \<Rightarrow> pyval \<Rightarrow> import_state \<Rightarrow> error + import_state" where
  "import_position entity_id pos st =
     (case pos of
        Dict p \<Rightarrow>
          and_then
            (execute (insert_into ''entity_positions'' [''entity_id'', ''position_id'', ''name'']
               [bind_param entity_id, bind_param (map_of p ''id''),
                bind_param (map_of p ''name'')]) st)
            (\<lambda>st. Inr (st\<lparr>pos_count := pos_count st + 1\<rparr>))
      | _ \<Rightarrow> Inr st)"

definition import_assignment :: "pyval option \<Rightarrow> pyval \<Rightarrow> import_state \<Rightarrow> error + import_state" where
  "import_assignment entity_id assign st =
     (case assign of
        Dict a \<Rightarrow>
          and_then
            (execute (insert_into ''entity_position_assignments''
               [''entity_id'', ''position_id'', ''histfig_id'']
               [bind_param entity_id, bind_param (map_of a ''position_id''),
                bind_param (map_of a ''histfig'')]) st)
            (\<lambda>st. Inr (st\<lparr>assign_count := assign_count st + 1\<rparr>))
      | _ \<Rightarrow> Inr st)"

definition import_entity :: importer where
  "import_entity data st =
     (let entity_id = map_of data ''id'' in
      and_then
        (execute (insert_or_replace ''entities'' [''id'', ''name'', ''race'', ''type'']
           [bind_param entity_id, bind_param (map_of data ''name''),
            bind_param (map_of data ''race''), bind_param (map_of data ''type'')]) st)
        (\<lambda>st. and_then
           (for_each (py_iter (list_if_dict (get_or data ''entity_position'' (Lst []))))
              (import_position entity_id) st)
           (\<lambda>st. for_each
              (py_iter (list_if_dict (get_or data ''entity_position_assignment'' (Lst []))))
              (import_assignment entity_id) st)))"

definition import_entity_link :: "pyval option \<Rightarrow> pyval \<Rightarrow> import_state \<Rightarrow> error + import_state" where
  "import_entity_link hfid link st =
     (case link of
        Dict l \<Rightarrow>
          and_then
            (execute (insert_into ''hf_entity_links''
               [''hfid'', ''entity_id'', ''link_type'', ''link_strength'']
               [bind_param hfid, bind_param (map_of l ''entity_id''),
                bind_param (map_of l ''link_type''), bind_param (map_of l ''link_strength'')]) st)
            (\<lambda>st. Inr (st\<lparr>entity_link_count := entity_link_count st + 1\<rparr>))
      | _ \<Rightarrow> Inr st)"

definition import_site_link :: "pyval option \<Rightarrow> pyval \<Rightarrow> import_state \<Rightarrow> error + import_state" where
  "import_site_link hfid slink st =
     (case slink of
        Dict l \<Rightarrow>
          and_then
            (execute (insert_into ''hf_site_links'' [''hfid'', ''site_id'', ''link_type'']
               [bind_param hfid, bind_param (map_of l ''site_id''),
                bind_param (map_of l ''link_type'')]) st)
            (\<lambda>st. Inr (st\<lparr>site_link_count := site_link_count st + 1\<rparr>))
      | _ \<Rightarrow> Inr st)"

definition import_hf :: importer where
  "import_hf data st =
     (let hfid = map_of data ''id'' in
      and_then
        (execute (insert_or_replace ''historical_figures''
           [''id'', ''name'', ''race'', ''caste'', ''sex'', ''birth_year'', ''death_year'']
           [bind_param hfid, bind_param (map_of data ''name''), bind_param (map_of data ''race''),
            bind_param (map_of data ''caste''), bind_param (map_of data ''sex''),
            bind_param (map_of data ''birth_year''), bind_param (map_of data ''death_year'')]) st)
        (\<lambda>st. and_then
           (for_each (py_iter (list_if_dict (get_or data ''entity_link'' (Lst []))))
              (import_entity_link hfid) st)
           (\<lambda>st. for_each (py_iter (list_if_dict (get_or data ''site_link'' (Lst []))))
              (import_site_link hfid) st)))"

definition import_rel :: importer where
  "import_rel data st =
     execute (insert_into ''hf_relationships'' [''source_hf'', ''target_hf'', ''relationship'', ''year'']
       [bind_param (map_of data ''source_hf''), bind_param (map_of data ''target_hf''),
        bind_param (map_of data ''relationship''), bind_param (map_of data ''year'')]) st"


text \<open>
  \<^verbatim>\<open>json.dumps\<close> with its defaults on strings, dictionaries and lists: items are
  joined by a comma and a space, keys and values by a colon and a space, and every
  character outside the printable ASCII range, the quote and the backslash are
  escaped. A character of a string stands for a code point below 256.
\<close>

definition hex_digit :: "nat \<Rightarrow> char" where
  "hex_digit n = (if n < 10 then char_of (48 + n) else char_of (87 + n))"

definition json_escape :: "char \<Rightarrow> string" where
  "json_escape c =
     (if c = CHR 0x22 then [CHR 0x5C, CHR 0x22]
      else if c = CHR 0x5C then [CHR 0x5C, CHR 0x5C]
      else if c = CHR 0x0A then [CHR 0x5C, CHR ''n'']
      else if c = CHR 0x0D then [CHR 0x5C, CHR ''r'']
      else if c = CHR 0x09 then [CHR 0x5C, CHR ''t'']
      else if c = CHR 0x08 then [CHR 0x5C, CHR ''b'']
      else if c = CHR 0x0C then [CHR 0x5C, CHR ''f'']
      else if 0x20 \<le> (of_char c :: nat) \<and> (of_char c :: nat) \<le> 0x7E then [c]
      else [CHR 0x5C, CHR ''u'', CHR ''0'', CHR ''0'',
            hex_digit ((of_char c :: nat) div 16), hex_digit ((of_char c :: nat) mod 16)])"

definition json_string :: "string \<Rightarrow> string" where
  "json_string s = [CHR 0x22] @ concat (map json_escape s) @ [CHR 0x22]"

fun join :: "string \<Rightarrow> string list \<Rightarrow> string" where
  "join sep [] = []"
| "join sep [x] = x"
| "join sep (x # y # ys) = x @ sep @ join sep (y # ys)"

fun json_dumps :: "pyval \<Rightarrow> string" where
  "json_dumps (Str s) = json_string s"
| "json_dumps (Dict d) =
     ''{'' @ join '', '' (map (\<lambda>kv. json_string (fst kv) @ '': '' @ json_dumps (snd kv)) d) @ ''}''"
| "json_dumps (Lst l) = ''['' @ join '', '' (map json_dumps l) @ '']''"

definition known_fields :: "string list" where
  "known_fields =
     [''id'', ''year'', ''type'', ''site_id'', ''site'', ''hfid'', ''civ_id'', ''civ'',
      ''state'', ''reason'', ''slayer_hfid'', ''slayer_hf'', ''death_cause'',
      ''artifact_id'', ''entity_id'', ''structure_id'']"

definition import_event :: importer where
  "import_event data st =
     (let extra = filter (\<lambda>kv. fst kv \<notin> set known_fields) data in
      execute (insert_into ''historical_events''
        [''id'', ''year'', ''type'', ''site_id'', ''hfid'', ''civ_id'', ''state'', ''reason'',
         ''slayer_hfid'', ''death_cause'', ''artifact_id'', ''entity_id'', ''structure_id'',
         ''extra_data'']
        [bind_param (map_of data ''id''), bind_param (map_of data ''year''),
         bind_param (map_of data ''type''),
         bind_param (py_or (map_of data ''site_id'') (map_of data ''site'')),
         bind_param (map_of data ''hfid''),
         bind_param (py_or (map_of data ''civ_id'') (map_of data ''civ'')),
         bind_param (map_of data ''state''), bind_param (map_of data ''reason''),
         bind_param (py_or (map_of data ''slayer_hfid'') (map_of data ''slayer_hf'')),
         bind_param (map_of data ''death_cause''), bind_param (map_of data ''artifact_id''),
         bind_param (map_of data ''entity_id''), bind_param (map_of data ''structure_id''),
         (if extra \<noteq> [] then Inr (Text (json_dumps (Dict extra))) else Inr Null)]) st)"

definition import_style :: "pyval option \<Rightarrow> pyval \<Rightarrow> import_state \<Rightarrow> error + import_state" where
  "import_style content_id style st =
     and_then
       (execute (insert_into ''written_content_styles'' [''written_content_id'', ''style'']
          [bind_param content_id, bind_param (Some style)]) st)
       (\<lambda>st. Inr (st\<lparr>style_count := style_count st + 1\<rparr>))"

definition import_reference :: "pyval option \<Rightarrow> pyval \<Rightarrow> import_state \<Rightarrow> error + import_state" where
  "import_reference content_id ref st =
     (case ref of
        Dict r \<Rightarrow>
          and_then
            (execute (insert_into ''written_content_references''
               [''written_content_id'', ''ref_type'', ''ref_id'']
               [bind_param content_id, bind_param (map_of r ''type''),
                bind_param (map_of r ''id'')]) st)
            (\<lambda>st. Inr (st\<lparr>ref_count := ref_count st + 1\<rparr>))
      | _ \<Rightarrow> Inr st)"

definition import_content :: importer where
  "import_content data st =
     (let content_id = map_of data ''id'' in
      and_then
        (execute (insert_into ''written_content''
           [''id'', ''title'', ''type'', ''author_hfid'', ''page_start'', ''page_end'']
           [bind_param content_id, bind_param (map_of data ''title''),
            bind_param (map_of data ''type''), bind_param (map_of data ''author''),
            bind_param (map_of data ''page_start''), bind_param (map_of data ''page_end'')]) st)
        (\<lambda>st. and_then
           (for_each (py_iter (list_if_str (get_or data ''style'' (Lst []))))
              (import_style content_id) st)
           (\<lambda>st. for_each (py_iter (list_if_dict (get_or data ''reference'' (Lst []))))
              (import_reference content_id) st)))"


section \<open>Streaming and the import run\<close>

text \<open>
  Parsing is \<^verbatim>\<open>lxml\<close>'s: what \<^verbatim>\<open>etree.iterparse\<close> yields for a file and a set of
  tags is a parameter, the elements in the order of their end events and the
  syntax error, if any, that ends the iteration.
\<close>

type_synonym parse_result = "element list \<times> error option"

type_synonym parser = "byte list \<Rightarrow> string list \<Rightarrow> parse_result"

definition stream_elements ::
  "parse_result \<Rightarrow> importer \<Rightarrow> import_state \<Rightarrow> error + nat \<times> import_state" where
  "stream_elements context callback st =
     (case for_each (fst context) (\<lambda>elem. callback (xml_to_dict elem)) st of
        Inl e \<Rightarrow> Inl e
      | Inr st' \<Rightarrow>
          (case snd context of
             Some e \<Rightarrow> Inl e
           | None \<Rightarrow> Inr (length (fst context), st')))"

fun world_info_loop ::
  "element list \<Rightarrow> error option \<Rightarrow> string option \<Rightarrow> error + string option \<times> string option" where
  "world_info_loop [] err name = (case err of Some e \<Rightarrow> Inl e | None \<Rightarrow> Inr (name, None))"
| "world_info_loop (elem # rest) err name =
     (if tag elem = ''name'' \<and> name = None then world_info_loop rest err (text_content elem)
      else if tag elem = ''altname'' then Inr (name, text_content elem)
      else world_info_loop rest err name)"

definition get_world_info :: "parse_result \<Rightarrow> error + string option \<times> string option" where
  "get_world_info context = world_info_loop (fst context) (snd context) None"

definition text_param :: "string option \<Rightarrow> error + sqlval" where
  "text_param t = (case t of None \<Rightarrow> Inr Null | Some s \<Rightarrow> Inr (Text s))"

text \<open>
  \<^verbatim>\<open>find_xml_files\<close> over the names that \<^verbatim>\<open>BASE_DIR.glob("*.xml")\<close> yields, in
  that order; a file is its name and its bytes. The two globals are \<^verbatim>\<open>None\<close> when
  the script starts. \<^verbatim>\<open>str.lower\<close> acts on the ASCII capitals; no other character
  becomes a letter of the two names searched for.
\<close>

definition lower :: "string \<Rightarrow> string" where
  "lower s =
     map (\<lambda>c. if 0x41 \<le> (of_char c :: nat) \<and> (of_char c :: nat) \<le> 0x5A
               then char_of ((of_char c :: nat) + 32) else c) s"

fun contains :: "string \<Rightarrow> string \<Rightarrow> bool" where
  "contains sub [] = (sub = [])"
| "contains sub (c # cs) = (take (length sub) (c # cs) = sub \<or> contains sub cs)"

type_synonym xml_file = "string \<times> byte list"

definition find_xml_files :: "xml_file list \<Rightarrow> xml_file option \<times> xml_file option" where
  "find_xml_files files =
     fold (\<lambda>f (legends_file, legends_plus_file).
             if contains ''legends_plus'' (lower (fst f)) then (legends_file, Some f)
             else if contains ''legends'' (lower (fst f)) then (Some f, legends_plus_file)
             else (legends_file, legends_plus_file))
          files (None, None)"

text \<open>
  What a run can change: the temporary files, named by the numbers \<^verbatim>\<open>mkstemp\<close>
  hands out, and the committed content of \<^verbatim>\<open>world.db\<close>.
\<close>

record system =
  xml_files :: "xml_file list"
  temp_files :: "(nat \<times> byte list) list"
  next_temp :: nat
  world_db :: database

datatype outcome = Returned bool | Raised error

text \<open>
  \<^verbatim>\<open>sanitize_xml_file\<close> with its file: the temporary file is created first and holds
  what the loop wrote, also when the loop raises.
\<close>

definition sanitize_to_temp :: "xml_file \<Rightarrow> system \<Rightarrow> (error + nat) \<times> system" where
  "sanitize_to_temp filepath sys =
     (let temp_path = next_temp sys;
          written = sanitize_xml_file (snd filepath);
          sys' = sys\<lparr>temp_files := temp_files sys @ [(temp_path, fst written)],
                     next_temp := temp_path + 1\<rparr>
      in (case snd written of Some e \<Rightarrow> Inl e | None \<Rightarrow> Inr temp_path, sys'))"

definition read_temp :: "system \<Rightarrow> nat \<Rightarrow> byte list" where
  "read_temp sys path = (case map_of (temp_files sys) path of None \<Rightarrow> [] | Some bs \<Rightarrow> bs)"

definition unlink :: "nat \<Rightarrow> system \<Rightarrow> system" where
  "unlink path sys = sys\<lparr>temp_files := filter (\<lambda>f. fst f \<noteq> path) (temp_files sys)\<rparr>"

text \<open>The passes in program order, each with the file and the tag it streams.\<close>

definition import_passes :: "parser \<Rightarrow> byte list \<Rightarrow> byte list \<Rightarrow> (parse_result \<times> importer) list" where
  "import_passes iterparse legends_clean legends_plus_clean =
     [(iterparse legends_clean [''region''], import_region),
      (iterparse legends_clean [''underground_region''], import_underground),
      (iterparse legends_clean [''site''], import_site),
      (iterparse legends_clean [''artifact''], import_artifact),
      (iterparse legends_plus_clean [''landmass''], import_landmass),
      (iterparse legends_plus_clean [''mountain_peak''], import_peak),
      (iterparse legends_plus_clean [''site''], import_site_plus),
      (iterparse legends_plus_clean [''entity''], import_entity),
      (iterparse legends_clean [''historical_figure''], import_hf),
      (iterparse legends_plus_clean [''historical_event_relationship''], import_rel),
      (iterparse legends_plus_clean [''historical_event''], import_event),
      (iterparse legends_plus_clean [''written_content''], import_content)]"

text \<open>
  Each pass ends with \<^verbatim>\<open>conn.commit()\<close>. An exception inside a pass leaves the
  database as the last commit left it.
\<close>

fun run_passes :: "(parse_result \<times> importer) list \<Rightarrow> import_state \<Rightarrow> outcome \<times> database" where
  "run_passes [] st = (Returned True, db st)"
| "run_passes (p # rest) st =
     (case stream_elements (fst p) (snd p) st of
        Inl e \<Rightarrow> (Raised e, db st)
      | Inr r \<Rightarrow> run_passes rest (snd r))"

text \<open>The body of the \<^verbatim>\<open>try\<close> statement.\<close>

definition import_body :: "parser \<Rightarrow> byte list \<Rightarrow> byte list \<Rightarrow> database \<Rightarrow> outcome \<times> database" where
  "import_body iterparse legends_clean legends_plus_clean d =
     (let d = clear_tables d in
      case get_world_info (iterparse legends_plus_clean [''name'', ''altname'']) of
        Inl e \<Rightarrow> (Raised e, d)
      | Inr info \<Rightarrow>
          (case insert_into ''world'' [''name'', ''altname'']
                  [text_param (fst info), text_param (snd info)] d of
             Inl e \<Rightarrow> (Raised e, d)
           | Inr d' \<Rightarrow>
               run_passes (import_passes iterparse legends_clean legends_plus_clean)
                 \<lparr>db = d', structure_count = 0, pos_count = 0, assign_count = 0,
                  entity_link_count = 0, site_link_count = 0, style_count = 0, ref_count = 0\<rparr>))"

definition run_import :: "parser \<Rightarrow> system \<Rightarrow> outcome \<times> system" where
  "run_import iterparse sys =
     (case find_xml_files (xml_files sys) of
        (Some legends_file, Some legends_plus_file) \<Rightarrow>
          (case sanitize_to_temp legends_file sys of
             (Inl e, sys) \<Rightarrow> (Raised e, sys)
           | (Inr legends_clean, sys) \<Rightarrow>
               (case sanitize_to_temp legends_plus_file sys of
                  (Inl e, sys) \<Rightarrow> (Raised e, sys)
                | (Inr legends_plus_clean, sys) \<Rightarrow>
                    (let r = import_body iterparse (read_temp sys legends_clean)
                               (read_temp sys legends_plus_clean) (world_db sys)
                     in (fst r, unlink legends_plus_clean
                                  (unlink legends_clean (sys\<lparr>world_db := snd r\<rparr>))))))
      | _ \<Rightarrow> (Returned False, sys))"


section \<open>Reference values for the statements\<close>

text \<open>The value a Python value is stored as when it binds.\<close>

definition sql_of :: "pyval option \<Rightarrow> sqlval" where
  "sql_of v = (case v of Some (Str s) \<Rightarrow> Text s | _ \<Rightarrow> Null)"

text \<open>The occurrences of a list that carry child elements of their own.\<close>

definition dicts_of :: "pyval list \<Rightarrow> pydict list" where
  "dicts_of vs = concat (map (\<lambda>v. case v of Dict d \<Rightarrow> [d] | _ \<Rightarrow> []) vs)"

text \<open>
  The structures a pass-2 site record lists inside its single \<^verbatim>\<open>structures\<close>
  container, and the row of one of them under the site id \<open>k\<close>.
\<close>

definition listed_structures :: "pydict \<Rightarrow> pydict list" where
  "listed_structures data =
     (case map_of data ''structures'' of
        Some (Dict structures) \<Rightarrow>
          (case map_of structures ''structure'' of
             Some (Dict s) \<Rightarrow> [s]
           | Some (Lst l) \<Rightarrow> dicts_of l
           | _ \<Rightarrow> [])
      | _ \<Rightarrow> [])"

definition structure_row :: "string \<Rightarrow> pydict \<Rightarrow> row" where
  "structure_row k s =
     [(''local_id'', sql_of (map_of s ''id'')), (''site_id'', Text k),
      (''name'', sql_of (map_of s ''name'')), (''name2'', sql_of (map_of s ''name2'')),
      (''type'', sql_of (map_of s ''type''))]"

definition empty_state :: import_state where
  "empty_state = \<lparr>db = (\<lambda>tbl. []), structure_count = 0, pos_count = 0, assign_count = 0,
     entity_link_count = 0, site_link_count = 0, style_count = 0, ref_count = 0\<rparr>"

text \<open>
  Example records: a \<^verbatim>\<open>site\<close> leaf as it occurs inside an event of the extended
  export, a site of the base export, the same site in the extended export with two
  structures, and that site with its structures spread over two containers.
\<close>

definition event_site_leaf :: element where
  "event_site_leaf = Element ''site'' (Some ''12'') []"

definition base_site_elem :: element where
  "base_site_elem =
     Element ''site'' None
       [Element ''id'' (Some ''42'') [], Element ''name'' (Some ''ironhold'') [],
        Element ''type'' (Some ''fortress'') [], Element ''coords'' (Some ''3,4'') [],
        Element ''rectangle'' (Some ''1,1:2,2'') []]"

definition plus_site_elem :: element where
  "plus_site_elem =
     Element ''site'' None
       [Element ''id'' (Some ''42'') [], Element ''civ_id'' (Some ''7'') [],
        Element ''cur_owner_id'' (Some ''9'') [],
        Element ''structures'' None
          [Element ''structure'' None
             [Element ''id'' (Some ''0'') [], Element ''type'' (Some ''temple'') []],
           Element ''structure'' None
             [Element ''id'' (Some ''1'') [], Element ''type'' (Some ''tower'') []]]]"

definition two_containers_elem :: element where
  "two_containers_elem =
     Element ''site'' None
       [Element ''id'' (Some ''42'') [],
        Element ''structures'' None
          [Element ''structure'' None [Element ''id'' (Some ''0'') []]],
        Element ''structures'' None
          [Element ''structure'' None [Element ''id'' (Some ''1'') []]]]"

definition base_site_row :: row where
  "base_site_row =
     [(''id'', Text ''42''), (''name'', Text ''ironhold''), (''type'', Text ''fortress''),
      (''coords'', Text ''3,4''), (''rectangle'', Text ''1,1:2,2'')]"

definition base_site_state :: import_state where
  "base_site_state = empty_state\<lparr>db := (db empty_state)(''sites'' := [base_site_row])\<rparr>"

definition plus_site_state :: import_state where
  "plus_site_state =
     empty_state\<lparr>db := (db empty_state)
       (''sites'' := [base_site_row @ [(''civ_id'', Text ''7''), (''cur_owner_id'', Text ''9'')]],
        ''structures'' :=
          [[(''local_id'', Text ''0''), (''site_id'', Text ''42''), (''name'', Null),
            (''name2'', Null), (''type'', Text ''temple'')],
           [(''local_id'', Text ''1''), (''site_id'', Text ''42''), (''name'', Null),
            (''name2'', Null), (''type'', Text ''tower'')]]),
       structure_count := 2\<rparr>"

definition owner_only_state :: import_state where
  "owner_only_state =
     empty_state\<lparr>db := (db empty_state)
       (''sites'' := [base_site_row @ [(''civ_id'', Null), (''cur_owner_id'', Null)]])\<rparr>"







definition base_file_only_system :: system where
  "base_file_only_system =
     \<lparr>xml_files = [(''legends.xml'', control_doc), (''notes.xml'', [])],
      temp_files = [], next_temp = 0, world_db = db base_site_state\<rparr>"


definition failing_parser :: parser where
  "failing_parser bs tags =
     (if tags = [''site''] then ([base_site_elem], Some XMLSyntaxError) else ([], None))"










text \<open>The two name tests of \<^verbatim>\<open>find_xml_files\<close>.\<close>

definition is_plus :: "xml_file \<Rightarrow> bool" where
  "is_plus f = contains ''legends_plus'' (lower (fst f))"

definition is_base :: "xml_file \<Rightarrow> bool" where
  "is_base f = (contains ''legends'' (lower (fst f)) \<and> \<not> contains ''legends_plus'' (lower (fst f)))"


section \<open>Decoding the residual payload\<close>

text \<open>
  \<^verbatim>\<open>json.loads\<close>, which the browsing layer applies to \<^verbatim>\<open>extra_data\<close>, on the
  documents that consist of strings, arrays and objects: white space is skipped
  between tokens, a string may not hold a raw control character, an escape is one of
  \<^verbatim>\<open>\" \\ \/ \b \f \n \r \t\<close> or \<^verbatim>\<open>\u\<close> with four hexadecimal digits, and an object
  becomes a dictionary in which a repeated key keeps its first position and its last
  value. A code point of 256 or more has no character here and a number or a literal
  has no value here, so the decoder gives \<^verbatim>\<open>None\<close> on them, as it does on a
  malformed document. The recursion of the decoder is bounded by a fuel argument;
  \<^verbatim>\<open>json_loads\<close> supplies the length of the document.
\<close>

definition hex_value :: "char \<Rightarrow> nat option" where
  "hex_value c =
     (let n = (of_char c :: nat) in
      if 0x30 \<le> n \<and> n \<le> 0x39 then Some (n - 0x30)
      else if 0x61 \<le> n \<and> n \<le> 0x66 then Some (n - 0x57)
      else if 0x41 \<le> n \<and> n \<le> 0x46 then Some (n - 0x37)
      else None)"

definition hex4 :: "char \<Rightarrow> char \<Rightarrow> char \<Rightarrow> char \<Rightarrow> nat option" where
  "hex4 a b c d =
     (case (hex_value a, hex_value b, hex_value c, hex_value d) of
        (Some w, Some x, Some y, Some z) \<Rightarrow> Some (((w * 16 + x) * 16 + y) * 16 + z)
      | _ \<Rightarrow> None)"

definition unescape :: "char \<Rightarrow> char option" where
  "unescape e =
     (if e = CHR 0x22 \<or> e = CHR 0x5C \<or> e = CHR ''/'' then Some e
      else if e = CHR ''n'' then Some (CHR 0x0A)
      else if e = CHR ''r'' then Some (CHR 0x0D)
      else if e = CHR ''t'' then Some (CHR 0x09)
      else if e = CHR ''b'' then Some (CHR 0x08)
      else if e = CHR ''f'' then Some (CHR 0x0C)
      else None)"

definition cons_char :: "char \<Rightarrow> (string \<times> string) option \<Rightarrow> (string \<times> string) option" where
  "cons_char c r = (case r of None \<Rightarrow> None | Some p \<Rightarrow> Some (c # fst p, snd p))"

text \<open>The characters of a string behind its opening quote, and what follows the closing one.\<close>

fun parse_chars :: "string \<Rightarrow> (string \<times> string) option" where
  "parse_chars [] = None"
| "parse_chars (c # cs) =
     (if c = CHR 0x22 then Some ([], cs)
      else if c = CHR 0x5C then
        (case cs of
           [] \<Rightarrow> None
         | e # r \<Rightarrow>
             if e = CHR ''u'' then
               (case r of
                  h1 # h2 # h3 # h4 # r' \<Rightarrow>
                    (case hex4 h1 h2 h3 h4 of
                       None \<Rightarrow> None
                     | Some n \<Rightarrow> if n < 256 then cons_char (char_of n) (parse_chars r') else None)
                | _ \<Rightarrow> None)
             else
               (case unescape e of
                  None \<Rightarrow> None
                | Some d \<Rightarrow> cons_char d (parse_chars r)))
      else if (of_char c :: nat) < 0x20 then None
      else cons_char c (parse_chars cs))"

definition skip_ws :: "string \<Rightarrow> string" where
  "skip_ws s = dropWhile (\<lambda>c. c = CHR '' '' \<or> c = CHR 0x09 \<or> c = CHR 0x0A \<or> c = CHR 0x0D) s"

fun parse_value :: "nat \<Rightarrow> string \<Rightarrow> (pyval \<times> string) option"
  and parse_items :: "nat \<Rightarrow> string \<Rightarrow> (pyval list \<times> string) option"
  and parse_members :: "nat \<Rightarrow> string \<Rightarrow> ((string \<times> pyval) list \<times> string) option"
where
  "parse_value 0 s = None"
| "parse_value (Suc n) s =
     (case skip_ws s of
        [] \<Rightarrow> None
      | c # r \<Rightarrow>
          if c = CHR 0x22 then
            (case parse_chars r of None \<Rightarrow> None | Some p \<Rightarrow> Some (Str (fst p), snd p))
          else if c = CHR ''['' then
            (case skip_ws r of
               [] \<Rightarrow> None
             | c' # r' \<Rightarrow>
                 if c' = CHR '']'' then Some (Lst [], r')
                 else (case parse_items n r of
                         None \<Rightarrow> None
                       | Some p \<Rightarrow> Some (Lst (fst p), snd p)))
          else if c = CHR ''{'' then
            (case skip_ws r of
               [] \<Rightarrow> None
             | c' # r' \<Rightarrow>
                 if c' = CHR ''}'' then Some (Dict [], r')
                 else (case parse_members n r of
                         None \<Rightarrow> None
                       | Some p \<Rightarrow>
                           Some (Dict (fold (\<lambda>kv. dict_set (fst kv) (snd kv)) (fst p) []), snd p)))
          else None)"
| "parse_items 0 s = None"
| "parse_items (Suc n) s =
     (case parse_value n s of
        None \<Rightarrow> None
      | Some p \<Rightarrow>
          (case skip_ws (snd p) of
             [] \<Rightarrow> None
           | c # r \<Rightarrow>
               if c = CHR '','' then
                 (case parse_items n r of
                    None \<Rightarrow> None
                  | Some q \<Rightarrow> Some (fst p # fst q, snd q))
               else if c = CHR '']'' then Some ([fst p], r)
               else None))"
| "parse_members 0 s = None"
| "parse_members (Suc n) s =
     (case skip_ws s of
        [] \<Rightarrow> None
      | c # r \<Rightarrow>
          if c = CHR 0x22 then
            (case parse_chars r of
               None \<Rightarrow> None
             | Some k \<Rightarrow>
                 (case skip_ws (snd k) of
                    [] \<Rightarrow> None
                  | c' # r' \<Rightarrow>
                      if c' = CHR '':'' then
                        (case parse_value n r' of
                           None \<Rightarrow> None
                         | Some p \<Rightarrow>
                             (case skip_ws (snd p) of
                                [] \<Rightarrow> None
                              | c'' # r'' \<Rightarrow>
                                  if c'' = CHR '','' then
                                    (case parse_members n r'' of
                                       None \<Rightarrow> None
                                     | Some q \<Rightarrow> Some ((fst k, fst p) # fst q, snd q))
                                  else if c'' = CHR ''}'' then Some ([(fst k, fst p)], r'')
                                  else None))
                      else None))
          else None)"

definition json_loads :: "string \<Rightarrow> pyval option" where
  "json_loads s =
     (case parse_value (length s) s of
        None \<Rightarrow> None
      | Some p \<Rightarrow> if skip_ws (snd p) = [] then Some (fst p) else None)"

text \<open>Dictionaries with distinct keys at every level, as the flattener builds them.\<close>

fun wf_val :: "pyval \<Rightarrow> bool" where
  "wf_val (Str s) = True"
| "wf_val (Dict d) = (distinct (map fst d) \<and> (\<forall>kv \<in> set d. wf_val (snd kv)))"
| "wf_val (Lst l) = (\<forall>v \<in> set l. wf_val v)"

text \<open>An event of the extended export with a field outside the recognized set.\<close>

definition custom_event_elem :: element where
  "custom_event_elem =
     Element ''historical_event'' None
       [Element ''id'' (Some ''7'') [], Element ''year'' (Some ''102'') [],
        Element ''type'' (Some ''hf died'') [], Element ''custom_field'' (Some ''value'') []]"

text \<open>\<^verbatim>\<open>{"custom_field": "value"}\<close>, and the state after the example event is imported.\<close>

definition custom_payload :: string where
  "custom_payload =
     ''{'' @ [CHR 0x22] @ ''custom_field'' @ [CHR 0x22] @ '': '' @ [CHR 0x22] @ ''value''
       @ [CHR 0x22] @ ''}''"

definition custom_event_state :: import_state where
  "custom_event_state =
     empty_state\<lparr>db := (db empty_state)
       (''historical_events'' :=
          [[(''id'', Text ''7''), (''year'', Text ''102''), (''type'', Text ''hf died''),
            (''site_id'', Null), (''hfid'', Null), (''civ_id'', Null), (''state'', Null),
            (''reason'', Null), (''slayer_hfid'', Null), (''death_cause'', Null),
            (''artifact_id'', Null), (''entity_id'', Null), (''structure_id'', Null),
            (''extra_data'', Text custom_payload)]])\<rparr>"

text \<open>An item of an object as \<^verbatim>\<open>json.dumps\<close> writes it.\<close>

definition member :: "string \<times> pyval \<Rightarrow> string" where
  "member kv = json_string (fst kv) @ '': '' @ json_dumps (snd kv)"


section \<open>Properties of the flattener\<close>

lemma map_of_dict_set: "map_of (dict_set k v r) t = (if t = k then Some v else map_of r t)"
  by (induction r) auto

lemma keys_dict_set: "map fst (dict_set k v r) = (if k \<in> set (map fst r) then map fst r else map fst r @ [k])"
  by (induction r) force+

lemma xml_to_dict_fold:
  "xml_to_dict e = fold (\<lambda>c. add_value (tag c) (child_value c)) (children e) []"
  by (cases e) (simp add: child_value_def)

lemma child_value_not_Lst: "child_value c \<noteq> Lst vs"
  by (simp add: child_value_def)

lemma map_of_add_value:
  "map_of (add_value k v r) t =
     (if t = k then
        (case map_of r k of
           None \<Rightarrow> Some v
         | Some (Lst vs) \<Rightarrow> Some (Lst (vs @ [v]))
         | Some old \<Rightarrow> Some (Lst [old, v]))
      else map_of r t)"
  by (auto simp: add_value_def map_of_dict_set split: option.splits pyval.splits)

lemma fold_lookup:
  "map_of (fold (\<lambda>c. add_value (tag c) (child_value c)) cs []) t =
     (case filter (\<lambda>c. tag c = t) cs of
        [] \<Rightarrow> None
      | [c] \<Rightarrow> Some (child_value c)
      | c1 # c2 # cs' \<Rightarrow> Some (Lst (map child_value (c1 # c2 # cs'))))"
proof (induction cs rule: rev_induct)
  case Nil
  then show ?case by simp
next
  case (snoc c cs)
  show ?case
  proof (cases "tag c = t")
    case False
    then show ?thesis using snoc by (simp add: map_of_add_value)
  next
    case True
    show ?thesis
    proof (cases "filter (\<lambda>c. tag c = t) cs")
      case Nil
      then show ?thesis using snoc True by (simp add: map_of_add_value)
    next
      case (Cons c1 rest)
      then show ?thesis using snoc True
        by (cases rest) (auto simp: map_of_add_value child_value_def split: pyval.splits)
    qed
  qed
qed


lemma map_of_xml_to_dict:
  "map_of (xml_to_dict e) t =
     (case filter (\<lambda>c. tag c = t) (children e) of
        [] \<Rightarrow> None
      | [c] \<Rightarrow> Some (child_value c)
      | c1 # c2 # cs' \<Rightarrow> Some (Lst (map child_value (c1 # c2 # cs'))))"
  by (simp add: xml_to_dict_fold fold_lookup)

lemma distinct_keys_add_value:
  "distinct (map fst r) \<Longrightarrow> distinct (map fst (add_value k v r))"
  by (auto simp: add_value_def keys_dict_set map_of_eq_None_iff
           split: option.splits pyval.splits dest: map_of_SomeD)

lemma distinct_keys_fold:
  "distinct (map fst r) \<Longrightarrow>
   distinct (map fst (fold (\<lambda>c. add_value (tag c) (child_value c)) cs r))"
  by (induction cs arbitrary: r) (auto simp: distinct_keys_add_value)

lemma distinct_keys_xml_to_dict: "distinct (map fst (xml_to_dict e))"
  by (simp add: xml_to_dict_fold distinct_keys_fold)

text \<open>
  Claim C1. For every element \<open>e\<close> and tag \<open>t\<close>, the flattened record maps \<open>t\<close> to
  nothing when no immediate child carries that tag; to the value of the child when
  exactly one does; and to the list of the values of all those children, in document
  order, when two or more do. The value of a child that has children is its own
  flattened record, and the value of a leaf is its text, the empty string when the
  text is absent.
\<close>

theorem xml_to_dict_children:
  "map_of (xml_to_dict e) t =
     (case filter (\<lambda>c. tag c = t) (children e) of
        [] \<Rightarrow> None
      | [c] \<Rightarrow> Some (child_value c)
      | c1 # c2 # cs \<Rightarrow> Some (Lst (map child_value (c1 # c2 # cs))))
   \<and> child_value c =
       (if children c \<noteq> [] then Dict (xml_to_dict c)
        else Str (case text_content c of None \<Rightarrow> '''' | Some s \<Rightarrow> s))"
  by (simp add: map_of_xml_to_dict child_value_def text_or_empty_def)

theorem xml_to_dict_children_witness:
  "map_of (xml_to_dict promotion_example) ''x'' = Some (Lst [Str ''1'', Str ''2''])
   \<and> map_of (xml_to_dict promotion_example) ''y'' = Some (Str '''')
   \<and> map_of (xml_to_dict promotion_example) ''z'' = Some (Dict [(''w'', Str ''3'')])
   \<and> map_of (xml_to_dict promotion_example) ''v'' = None"
proof -
  have x: "map_of (xml_to_dict promotion_example) ''x'' = Some (Lst [Str ''1'', Str ''2''])"
    by (subst xml_to_dict_children [THEN conjunct1])
       (simp add: promotion_example_def child_value_def text_or_empty_def)
  have rest: "map_of (xml_to_dict promotion_example) ''y'' = Some (Str '''')"
    "map_of (xml_to_dict promotion_example) ''z'' = Some (Dict [(''w'', Str ''3'')])"
    "map_of (xml_to_dict promotion_example) ''v'' = None"
    by (simp_all add: map_of_xml_to_dict promotion_example_def child_value_def
          text_or_empty_def add_value_def)
  show ?thesis using x rest by simp
qed


section \<open>Properties of the sanitizer\<close>

lemma length_cp437_high: "length cp437_high = 128"
  by (simp add: cp437_high_def)

lemma cp437_high_range: "\<forall>c \<in> set cp437_high. 0xA0 \<le> c \<and> c < 0xD800"
  by (simp add: cp437_high_def)

lemma cp437_decode_range: "c \<in> set (cp437_decode chunk) \<Longrightarrow> c < 0xD800"
proof -
  assume "c \<in> set (cp437_decode chunk)"
  then obtain b where b: "b \<in> set chunk"
    and c: "c = (if unat b < 128 then unat b else cp437_high ! (unat b - 128))"
    by (auto simp: cp437_decode_def)
  show ?thesis
  proof (cases "unat b < 128")
    case True
    then show ?thesis using c by simp
  next
    case False
    have "unat b < 256" using unsigned_less [of b, where ?'a = nat] by simp
    then have "unat b - 128 < length cp437_high" using False by (simp add: length_cp437_high)
    then have "cp437_high ! (unat b - 128) \<in> set cp437_high" by (rule nth_mem)
    then show ?thesis using c False cp437_high_range by auto
  qed
qed

lemma clean_range: "c \<in> set (clean chunk) \<Longrightarrow> c < 0xD800 \<and> \<not> invalid_char c"
  by (auto simp: clean_def invalid_chars_sub_def dest: cp437_decode_range)

lemma clean_append: "clean (xs @ ys) = clean xs @ clean ys"
  by (simp add: clean_def invalid_chars_sub_def cp437_decode_def)

lemma clean_take_drop: "clean (take n xs) @ clean (drop n xs) = clean xs"
  using clean_append [of "take n xs" "drop n xs"] by simp

lemma utf8_declaration_range: "c \<in> set utf8_declaration \<Longrightarrow> c < 0xD800 \<and> \<not> invalid_char c"
  by (auto simp: utf8_declaration_def invalid_char_def)

lemma set_encoding_pattern_sub:
  "set (encoding_pattern_sub tx) \<subseteq> set tx \<union> set utf8_declaration"
proof (induction tx rule: encoding_pattern_sub.induct)
  case 1
  then show ?case by simp
next
  case (2 c cs)
  show ?case
  proof (cases "encoding_match (c # cs)")
    case True
    then have "set (encoding_pattern_sub (drop 15 cs)) \<subseteq> set (drop 15 cs) \<union> set utf8_declaration"
      using "2" by simp
    moreover have "set (drop 15 cs) \<subseteq> set cs" by (rule set_drop_subset)
    ultimately show ?thesis using True by auto
  next
    case False
    then show ?thesis using "2" by auto
  qed
qed

lemma length_encoding_pattern_sub: "length (encoding_pattern_sub tx) = length tx"
proof (induction tx rule: encoding_pattern_sub.induct)
  case 1
  then show ?case by simp
next
  case (2 c cs)
  show ?case
  proof (cases "encoding_match (c # cs)")
    case True
    then have "16 \<le> length (c # cs)" by (simp add: encoding_match_def encoding_pattern_def)
    then show ?thesis using True "2" by (simp add: utf8_declaration_def)
  next
    case False
    then show ?thesis using "2" by simp
  qed
qed

lemma sanitize_text_range:
  "c \<in> set (sanitize_text first_chunk chunk) \<Longrightarrow> c < 0xD800 \<and> \<not> invalid_char c"
proof -
  assume a: "c \<in> set (sanitize_text first_chunk chunk)"
  have "set (sanitize_text first_chunk chunk) \<subseteq> set (clean chunk) \<union> set utf8_declaration"
    using set_encoding_pattern_sub [of "clean chunk"]
    by (auto simp: sanitize_text_def clean_def Let_def)
  then show ?thesis using a clean_range utf8_declaration_range by blast
qed

lemma sanitize_text_clean:
  "sanitize_text first_chunk chunk =
     (if first_chunk then encoding_pattern_sub (clean chunk) else clean chunk)"
  by (simp add: sanitize_text_def clean_def Let_def)

lemma unat_byte_of_nat: "k < 256 \<Longrightarrow> unat (byte_of_nat k) = k"
  by (simp add: byte_of_nat_def unat_of_nat)

lemma utf8_encode_char_ok:
  assumes "c < 0xD800"
  shows "\<exists>bs. utf8_encode_char c = Inr bs \<and>
              (\<forall>b \<in> set bs. if c < 0x80 then unat b = c else 0x80 \<le> unat b)"
proof -
  consider "c < 0x80" | "0x80 \<le> c" "c < 0x800" | "0x800 \<le> c" "c < 0xD800"
    using assms by linarith
  then show ?thesis
  proof cases
    case 1
    then show ?thesis by (simp add: utf8_encode_char_def unat_byte_of_nat)
  next
    case 2
    have d: "c div 0x40 < 0x20" using "2" by simp
    have m: "c mod 0x40 < 0x40" by simp
    have "unat (byte_of_nat (0xC0 + c div 0x40)) = 0xC0 + c div 0x40"
      using d by (intro unat_byte_of_nat) simp
    moreover have "unat (byte_of_nat (0x80 + c mod 0x40)) = 0x80 + c mod 0x40"
      using m by (intro unat_byte_of_nat) simp
    ultimately show ?thesis using 2 by (simp add: utf8_encode_char_def)
  next
    case 3
    have d: "c div 0x1000 < 0x10" using 3 by simp
    have m1: "c div 0x40 mod 0x40 < 0x40" by simp
    have m2: "c mod 0x40 < 0x40" by simp
    have "unat (byte_of_nat (0xE0 + c div 0x1000)) = 0xE0 + c div 0x1000"
      using d by (intro unat_byte_of_nat) simp
    moreover have "unat (byte_of_nat (0x80 + c div 0x40 mod 0x40)) = 0x80 + c div 0x40 mod 0x40"
      using m1 by (intro unat_byte_of_nat) simp
    moreover have "unat (byte_of_nat (0x80 + c mod 0x40)) = 0x80 + c mod 0x40"
      using m2 by (intro unat_byte_of_nat) simp
    ultimately show ?thesis using 3 by (simp add: utf8_encode_char_def)
  qed
qed

lemma utf8_encode_ok:
  "\<forall>c \<in> set tx. c < 0xD800 \<and> \<not> invalid_char c \<Longrightarrow>
   \<exists>bs. utf8_encode tx = Inr bs \<and> (\<forall>b \<in> set bs. \<not> invalid_char (unat b))"
proof (induction tx)
  case Nil
  then show ?case by simp
next
  case (Cons c tx)
  then obtain rest where rest: "utf8_encode tx = Inr rest"
    "\<forall>b \<in> set rest. \<not> invalid_char (unat b)" by auto
  have c: "c < 0xD800" "\<not> invalid_char c" using Cons.prems by auto
  obtain bs where bs: "utf8_encode_char c = Inr bs"
    "\<forall>b \<in> set bs. if c < 0x80 then unat b = c else 0x80 \<le> unat b"
    using utf8_encode_char_ok [OF c(1)] by blast
  have "\<forall>b \<in> set bs. \<not> invalid_char (unat b)"
  proof
    fix b assume "b \<in> set bs"
    then have "if c < 0x80 then unat b = c else 0x80 \<le> unat b" using bs(2) by blast
    then show "\<not> invalid_char (unat b)" using c(2)
      by (auto simp: invalid_char_def split: if_splits)
  qed
  then show ?case using rest bs(1) by auto
qed

lemma utf8_encode_append:
  "utf8_encode xs = Inr a \<Longrightarrow> utf8_encode ys = Inr b \<Longrightarrow> utf8_encode (xs @ ys) = Inr (a @ b)"
  by (induction xs arbitrary: a) (auto split: sum.splits)

lemma sanitize_loop_invariant:
  "\<forall>c \<in> set written. c < 0xD800 \<and> \<not> invalid_char c \<Longrightarrow>
   utf8_encode written = Inr outfile \<Longrightarrow>
   \<exists>tx out. sanitize_loop n first_chunk infile outfile = (out, None) \<and>
             utf8_encode tx = Inr out \<and>
             (\<forall>c \<in> set tx. c < 0xD800 \<and> \<not> invalid_char c)"
proof (induction n first_chunk infile outfile arbitrary: written rule: sanitize_loop.induct)
  case (1 n first_chunk infile outfile)
  show ?case
  proof (cases "take n infile = []")
    case True
    then show ?thesis using "1.prems" by (subst sanitize_loop.simps) auto
  next
    case False
    let ?t = "sanitize_text first_chunk (take n infile)"
    have r: "\<forall>c \<in> set ?t. c < 0xD800 \<and> \<not> invalid_char c"
      using sanitize_text_range by blast
    then obtain bs where bs: "utf8_encode ?t = Inr bs" using utf8_encode_ok by blast
    have w: "\<forall>c \<in> set (written @ ?t). c < 0xD800 \<and> \<not> invalid_char c"
      using r "1.prems"(1) by auto
    have e: "utf8_encode (written @ ?t) = Inr (outfile @ bs)"
      using utf8_encode_append [OF "1.prems"(2) bs] .
    have "\<exists>tx out. sanitize_loop n False (drop n infile) (outfile @ bs) = (out, None) \<and>
             utf8_encode tx = Inr out \<and> (\<forall>c \<in> set tx. c < 0xD800 \<and> \<not> invalid_char c)"
      using "1.IH" [OF False bs w e] .
    then show ?thesis using False bs by (subst sanitize_loop.simps) simp
  qed
qed

text \<open>
  Claim C2. For every input, the sanitizer finishes without an exception, and what it
  wrote is the UTF-8 encoding of a string in which none of the characters U+0000 to
  U+0008, U+000B, U+000C, U+000E to U+001F occurs; none of the bytes 00 to 08, 0B, 0C,
  0E to 1F occurs in the output either.
\<close>

theorem sanitize_removes_invalid_chars:
  "\<exists>tx out. sanitize_xml_file infile = (out, None) \<and>
      utf8_encode tx = Inr out \<and>
      (\<forall>c \<in> set tx. \<not> invalid_char c) \<and>
      (\<forall>b \<in> set out. \<not> invalid_char (unat b))"
proof -
  obtain tx out where a: "sanitize_xml_file infile = (out, None)"
    "utf8_encode tx = Inr out" "\<forall>c \<in> set tx. c < 0xD800 \<and> \<not> invalid_char c"
    using sanitize_loop_invariant [of "[]" "[]" "1024 * 1024" True infile]
    unfolding sanitize_xml_file_def by auto
  then have "\<forall>b \<in> set out. \<not> invalid_char (unat b)" using utf8_encode_ok [OF a(3)] by simp
  then show ?thesis using a by blast
qed


lemma utf8_encode_clean: "\<exists>bs. utf8_encode (clean chunk) = Inr bs"
  using utf8_encode_ok [of "clean chunk"] clean_range by blast

lemma utf8_encode_sanitize_text: "\<exists>bs. utf8_encode (sanitize_text f chunk) = Inr bs"
  using utf8_encode_ok [of "sanitize_text f chunk"] sanitize_text_range by blast

lemma sanitize_loop_later_chunks:
  "0 < n \<Longrightarrow> utf8_encode (clean infile) = Inr bs \<Longrightarrow>
   sanitize_loop n False infile outfile = (outfile @ bs, None)"
proof (induction n "False" infile outfile arbitrary: bs rule: sanitize_loop.induct)
  case (1 n infile outfile)
  show ?case
  proof (cases "take n infile = []")
    case True
    then have "infile = []" using "1.prems"(1) by (cases infile) auto
    then show ?thesis using "1.prems"(2) by (subst sanitize_loop.simps) (simp add: clean_def invalid_chars_sub_def cp437_decode_def)
  next
    case False
    obtain b1 where b1: "utf8_encode (clean (take n infile)) = Inr b1"
      using utf8_encode_clean by blast
    obtain b2 where b2: "utf8_encode (clean (drop n infile)) = Inr b2"
      using utf8_encode_clean by blast
    have "utf8_encode (clean infile) = Inr (b1 @ b2)"
      using utf8_encode_append [OF b1 b2] by (simp add: clean_take_drop)
    then have bs: "bs = b1 @ b2" using "1.prems"(2) by simp
    have t: "utf8_encode (sanitize_text False (take n infile)) = Inr b1"
      using b1 by (simp add: sanitize_text_clean)
    have "sanitize_loop n False (drop n infile) (outfile @ b1) = ((outfile @ b1) @ b2, None)"
      using "1.hyps" [OF False t "1.prems"(1) b2] .
    then show ?thesis using False t bs by (subst sanitize_loop.simps) simp
  qed
qed

lemma sanitize_loop_first_chunk:
  assumes "0 < n"
    and "utf8_encode (encoding_pattern_sub (clean (take n infile))) = Inr b1"
    and "utf8_encode (clean (drop n infile)) = Inr b2"
  shows "sanitize_loop n True infile [] = (b1 @ b2, None)"
proof (cases "take n infile = []")
  case True
  then have e: "infile = []" using assms(1) by (cases infile) auto
  then have "b1 = []" "b2 = []" using assms(2,3)
    by (simp_all add: clean_def invalid_chars_sub_def cp437_decode_def)
  then show ?thesis using e by (subst sanitize_loop.simps) simp
next
  case False
  have t: "utf8_encode (sanitize_text True (take n infile)) = Inr b1"
    using assms(2) by (simp add: sanitize_text_clean)
  have "sanitize_loop n False (drop n infile) ([] @ b1) = (([] @ b1) @ b2, None)"
    using sanitize_loop_later_chunks [OF assms(1,3)] .
  then show ?thesis using False t by (subst sanitize_loop.simps) simp
qed

lemma encoding_match_append:
  "length decl = 16 \<Longrightarrow> encoding_match (decl @ post) = encoding_match decl"
  by (simp add: encoding_match_def encoding_pattern_def)

lemma encoding_pattern_sub_skip:
  "\<forall>i<length pre. \<not> encoding_match (drop i (pre @ rest)) \<Longrightarrow>
   encoding_pattern_sub (pre @ rest) = pre @ encoding_pattern_sub rest"
proof (induction pre)
  case Nil
  then show ?case by simp
next
  case (Cons c pre)
  have "\<not> encoding_match (drop 0 ((c # pre) @ rest))" using Cons.prems by blast
  then have h: "\<not> encoding_match (c # pre @ rest)" by simp
  have "\<forall>i<length pre. \<not> encoding_match (drop i (pre @ rest))"
  proof (intro allI impI)
    fix i assume "i < length pre"
    then have "\<not> encoding_match (drop (Suc i) ((c # pre) @ rest))" using Cons.prems by auto
    then show "\<not> encoding_match (drop i (pre @ rest))" by simp
  qed
  then show ?case using Cons.IH h by simp
qed

lemma encoding_pattern_sub_match:
  assumes "length decl = 16" and "encoding_match decl"
  shows "encoding_pattern_sub (decl @ post) = utf8_declaration @ encoding_pattern_sub post"
proof -
  obtain c cs where d: "decl = c # cs" using assms(1) by (cases decl) auto
  then have l: "length cs = 15" using assms(1) by simp
  have "encoding_match (c # cs @ post)"
    using encoding_match_append [OF assms(1), of post] assms(2) d by simp
  then show ?thesis using d l by simp
qed

theorem sanitize_removes_invalid_chars_witness:
  "0x01 \<in> set control_doc \<and> 0x01 \<notin> set (fst (sanitize_xml_file control_doc))
   \<and> snd (sanitize_xml_file control_doc) = None"
proof -
  obtain tx out where o: "sanitize_xml_file control_doc = (out, None)"
    and b: "\<forall>b \<in> set out. \<not> invalid_char (unat b)"
    using sanitize_removes_invalid_chars [of control_doc] by blast
  have "invalid_char (unat (0x01 :: byte))" by (simp add: invalid_char_def)
  then have "0x01 \<notin> set out" using b by blast
  moreover have "0x01 \<in> set control_doc" by (simp add: control_doc_def)
  ultimately show ?thesis using o by simp
qed


lemma ascii_lower_letter:
  "ascii_lower a = b \<Longrightarrow> 0x61 \<le> b \<Longrightarrow> b \<le> 0x7A \<Longrightarrow> a = b \<or> a + 32 = b"
  by (auto simp: ascii_lower_def split: if_splits)

lemma ascii_lower_other:
  "ascii_lower a = b \<Longrightarrow> b < 0x41 \<Longrightarrow> a = b"
  by (auto simp: ascii_lower_def split: if_splits)

lemma encoding_match_any_case:
  assumes "map ascii_lower tx =
             [0x65, 0x6E, 0x63, 0x6F, 0x64, 0x69, 0x6E, 0x67, 0x3D, q1, 0x63, 0x70, 0x34, 0x33, 0x37, q2]"
    and "q1 = 0x22 \<or> q1 = 0x27" and "q2 = 0x22 \<or> q2 = 0x27"
  shows "encoding_match tx"
proof -
  from assms(1) obtain a1 a2 a3 a4 a5 a6 a7 a8 a9 a10 a11 a12 a13 a14 a15 a16 where
    tx: "tx = [a1, a2, a3, a4, a5, a6, a7, a8, a9, a10, a11, a12, a13, a14, a15, a16]"
    by (auto simp: map_eq_Cons_conv)
  have l: "ascii_lower a1 = 0x65" "ascii_lower a2 = 0x6E" "ascii_lower a3 = 0x63"
    "ascii_lower a4 = 0x6F" "ascii_lower a5 = 0x64" "ascii_lower a6 = 0x69"
    "ascii_lower a7 = 0x6E" "ascii_lower a8 = 0x67" "ascii_lower a9 = 0x3D"
    "ascii_lower a10 = q1" "ascii_lower a11 = 0x63" "ascii_lower a12 = 0x70"
    "ascii_lower a13 = 0x34" "ascii_lower a14 = 0x33" "ascii_lower a15 = 0x37"
    "ascii_lower a16 = q2"
    using assms(1) unfolding tx by simp_all
  have "a1 = 0x65 \<or> a1 = 0x45" using ascii_lower_letter [OF l(1)] by auto
  moreover have "a2 = 0x6E \<or> a2 = 0x4E" using ascii_lower_letter [OF l(2)] by auto
  moreover have "a3 = 0x63 \<or> a3 = 0x43" using ascii_lower_letter [OF l(3)] by auto
  moreover have "a4 = 0x6F \<or> a4 = 0x4F" using ascii_lower_letter [OF l(4)] by auto
  moreover have "a5 = 0x64 \<or> a5 = 0x44" using ascii_lower_letter [OF l(5)] by auto
  moreover have "a6 = 0x69 \<or> a6 = 0x49" using ascii_lower_letter [OF l(6)] by auto
  moreover have "a7 = 0x6E \<or> a7 = 0x4E" using ascii_lower_letter [OF l(7)] by auto
  moreover have "a8 = 0x67 \<or> a8 = 0x47" using ascii_lower_letter [OF l(8)] by auto
  moreover have "a9 = 0x3D" using ascii_lower_other [OF l(9)] by simp
  moreover have "a10 = 0x22 \<or> a10 = 0x27" using ascii_lower_other [OF l(10)] assms(2) by auto
  moreover have "a11 = 0x63 \<or> a11 = 0x43" using ascii_lower_letter [OF l(11)] by auto
  moreover have "a12 = 0x70 \<or> a12 = 0x50" using ascii_lower_letter [OF l(12)] by auto
  moreover have "a13 = 0x34" using ascii_lower_other [OF l(13)] by simp
  moreover have "a14 = 0x33" using ascii_lower_other [OF l(14)] by simp
  moreover have "a15 = 0x37" using ascii_lower_other [OF l(15)] by simp
  moreover have "a16 = 0x22 \<or> a16 = 0x27" using ascii_lower_other [OF l(16)] assms(3) by auto
  ultimately show ?thesis
    unfolding tx encoding_match_def encoding_pattern_def by simp blast
qed

lemmas eval_defs = clean_def cp437_decode_def invalid_chars_sub_def invalid_char_def
  encoding_match_def encoding_pattern_def utf8_declaration_def utf8_encode_char_def byte_of_nat_def

lemma clean_two: "clean two_declarations_doc = 
     [0x3C, 0x3F, 0x78, 0x6D, 0x6C, 0x20,
      0x65, 0x6E, 0x63, 0x6F, 0x64, 0x69, 0x6E, 0x67, 0x3D, 0x22, 0x43, 0x50, 0x34, 0x33, 0x37, 0x22,
      0x3F, 0x3E, 0x3C, 0x61, 0x3E,
      0x65, 0x6E, 0x63, 0x6F, 0x64, 0x69, 0x6E, 0x67, 0x3D, 0x22, 0x43, 0x50, 0x34, 0x33, 0x37, 0x22,
      0x3C, 0x2F, 0x61, 0x3E]"
  by (simp add: two_declarations_doc_def eval_defs)

lemma two_declarations_both_rewritten:
  "sanitize_xml_file two_declarations_doc =
     (take 6 two_declarations_doc @ utf8_declaration_bytes @ take 5 (drop 22 two_declarations_doc)
        @ utf8_declaration_bytes @ drop 43 two_declarations_doc, None)"
proof -
  have l: "length two_declarations_doc \<le> 1048576" by (simp add: two_declarations_doc_def)
  have t: "take 1048576 two_declarations_doc = two_declarations_doc" using l by simp
  have d: "utf8_encode (clean (drop 1048576 two_declarations_doc)) = Inr []"
    using l by (simp add: eval_defs)
  have e: "utf8_encode (encoding_pattern_sub (clean (take 1048576 two_declarations_doc))) =
      Inr (take 6 two_declarations_doc @ utf8_declaration_bytes @ take 5 (drop 22 two_declarations_doc)
        @ utf8_declaration_bytes @ drop 43 two_declarations_doc)"
    unfolding t clean_two
    by (simp add: two_declarations_doc_def utf8_declaration_bytes_def eval_defs)
  show ?thesis
    unfolding sanitize_xml_file_def
    using sanitize_loop_first_chunk [of 1048576 two_declarations_doc, OF _ e d] by simp
qed

text \<open>
  Claim C3, as the code has it. Let the chunk size \<open>n\<close> be positive (it is
  \<open>1024 * 1024\<close> in \<^verbatim>\<open>sanitize_xml_file\<close>) and let the sanitized text of the
  first chunk be \<open>pre @ decl @ post\<close>, where \<open>decl\<close> is the leftmost match of the
  declaration pattern (the legacy name in any letter casing). Then the output is the
  encoding of \<open>pre\<close>, the UTF-8 declaration and \<open>post\<close> with every further match in
  it rewritten as well, followed by the encoding of the sanitized remainder of the
  input: beyond the first chunk nothing is rewritten.
\<close>

theorem declaration_rewritten_in_first_chunk:
  assumes "0 < n"
    and "clean (take n infile) = pre @ decl @ post"
    and "length decl = 16" and "encoding_match decl"
    and "\<forall>i<length pre. \<not> encoding_match (drop i (pre @ decl @ post))"
  shows "\<exists>b1 b2. sanitize_loop n True infile [] = (b1 @ b2, None) \<and>
           utf8_encode (pre @ utf8_declaration @ encoding_pattern_sub post) = Inr b1 \<and>
           utf8_encode (clean (drop n infile)) = Inr b2"
proof -
  have e: "encoding_pattern_sub (clean (take n infile)) =
             pre @ utf8_declaration @ encoding_pattern_sub post"
    using encoding_pattern_sub_skip [OF assms(5)] encoding_pattern_sub_match [OF assms(3,4)]
    by (simp add: assms(2))
  obtain b1 where b1: "utf8_encode (encoding_pattern_sub (clean (take n infile))) = Inr b1"
    using utf8_encode_sanitize_text [of True "take n infile"] by (auto simp: sanitize_text_clean)
  obtain b2 where b2: "utf8_encode (clean (drop n infile)) = Inr b2"
    using utf8_encode_clean by blast
  show ?thesis using sanitize_loop_first_chunk [OF assms(1) b1 b2] b1 b2 e by auto
qed

theorem declaration_rewritten_in_first_chunk_witness:
  "sanitize_loop 27 True two_declarations_doc [] =
     (take 6 two_declarations_doc @ utf8_declaration_bytes @ drop 22 two_declarations_doc, None)"
proof -
  let ?pre = "[0x3C, 0x3F, 0x78, 0x6D, 0x6C, 0x20] :: nat list"
  let ?decl = "[0x65, 0x6E, 0x63, 0x6F, 0x64, 0x69, 0x6E, 0x67, 0x3D, 0x22, 0x43, 0x50, 0x34, 0x33, 0x37, 0x22] :: nat list"
  let ?post = "[0x3F, 0x3E, 0x3C, 0x61, 0x3E] :: nat list"
  have n: "0 < (27::nat)" by simp
  have c: "clean (take 27 two_declarations_doc) = ?pre @ ?decl @ ?post"
    by (simp add: two_declarations_doc_def clean_def cp437_decode_def invalid_chars_sub_def invalid_char_def)
  have l: "length ?decl = 16" by simp
  have m: "encoding_match ?decl" by (simp add: encoding_match_def encoding_pattern_def)
  have f: "\<forall>i<length ?pre. \<not> encoding_match (drop i (?pre @ ?decl @ ?post))"
    by (simp add: encoding_match_def encoding_pattern_def less_Suc_eq)
  obtain b1 b2 where r: "sanitize_loop 27 True two_declarations_doc [] = (b1 @ b2, None)"
    and b1: "utf8_encode (?pre @ utf8_declaration @ encoding_pattern_sub ?post) = Inr b1"
    and b2: "utf8_encode (clean (drop 27 two_declarations_doc)) = Inr b2"
    using declaration_rewritten_in_first_chunk [OF n c l m f] by blast
  have "b1 = take 6 two_declarations_doc @ utf8_declaration_bytes @ take 5 (drop 22 two_declarations_doc)"
    using b1 by (simp add: two_declarations_doc_def utf8_declaration_bytes_def eval_defs)
  moreover have "b2 = drop 27 two_declarations_doc"
    using b2 by (simp add: two_declarations_doc_def eval_defs)
  ultimately show ?thesis using r by (simp add: two_declarations_doc_def)
qed

text \<open>
  The rewrite is not applied exactly once: in \<^verbatim>\<open>two_declarations_doc\<close> the
  declaration pattern occurs at offset 6 and again, as element text, at offset 27 of
  the same chunk, and both occurrences leave the sanitizer rewritten.
\<close>

theorem sanitize_rewrites_second_occurrence:
  "take 16 (drop 27 two_declarations_doc) = cp437_declaration_bytes
   \<and> take 16 (drop 6 (fst (sanitize_xml_file two_declarations_doc))) = utf8_declaration_bytes
   \<and> take 16 (drop 27 (fst (sanitize_xml_file two_declarations_doc))) = utf8_declaration_bytes"
  unfolding two_declarations_both_rewritten
  by (simp add: two_declarations_doc_def utf8_declaration_bytes_def cp437_declaration_bytes_def)


section \<open>Statements and the store\<close>

lemma bind_param_Inr: "bind_param v = Inr x \<Longrightarrow> x = sql_of v"
  by (cases v rule: bind_param.cases) (auto simp: sql_of_def)

lemma execute_Inr:
  "execute stmt st = Inr st' \<longleftrightarrow> (\<exists>d. stmt (db st) = Inr d \<and> st' = st\<lparr>db := d\<rparr>)"
  by (auto simp: execute_def split: sum.splits)

lemma and_then_Inr: "and_then r f = Inr y \<longleftrightarrow> (\<exists>x. r = Inr x \<and> f x = Inr y)"
  by (auto simp: and_then_def split: sum.splits)

lemma insert_into_Inr:
  "insert_into tbl cols ps d = Inr d' \<longleftrightarrow>
     (\<exists>vals. bind_all ps = Inr vals \<and> d' = d(tbl := d tbl @ [zip cols vals]))"
  by (auto simp: insert_into_def split: sum.splits)

lemma update_where_id_Inr:
  "update_where_id tbl cols ps d = Inr d' \<longleftrightarrow>
     (\<exists>vals. bind_all ps = Inr vals \<and>
        d' = d(tbl := map (\<lambda>r. if last vals \<noteq> Null \<and> col r ''id'' = last vals
                                 then set_columns (zip cols (butlast vals)) r else r) (d tbl)))"
  by (auto simp: update_where_id_def split: sum.splits)

lemma bind_all_Cons_Inr:
  "bind_all (p # ps) = Inr vals \<longleftrightarrow> (\<exists>v vs. p = Inr v \<and> bind_all ps = Inr vs \<and> vals = v # vs)"
  by (auto split: sum.splits)

lemma sum_case_Inr:
  "(case p of Inl e \<Rightarrow> Inl e | Inr v \<Rightarrow> f v) = Inr y \<longleftrightarrow> (\<exists>v. p = Inr v \<and> f v = Inr y)"
  by (cases p) auto

lemma bind_all_Nil_Inr: "bind_all [] = Inr vals \<longleftrightarrow> vals = []"
  by auto

lemma col_dict_set: "col (dict_set c v r) c' = (if c' = c then v else col r c')"
  by (simp add: col_def map_of_dict_set)

lemma import_structure_effect:
  assumes "import_structure (Some (Str k)) v st = Inr st'"
  shows "st' = (case v of
                  Dict s \<Rightarrow> st\<lparr>db := (db st)(''structures'' := db st ''structures'' @ [structure_row k s]),
                               structure_count := structure_count st + 1\<rparr>
                | _ \<Rightarrow> st)"
proof (cases v)
  case (Dict s)
  then show ?thesis using assms
    by (auto simp: import_structure_def and_then_Inr execute_Inr insert_into_Inr
          sum_case_Inr structure_row_def dest!: bind_param_Inr)
qed (use assms in \<open>auto simp: import_structure_def\<close>)

lemma dicts_of_Cons:
  "dicts_of (v # vs) = (case v of Dict d \<Rightarrow> [d] | _ \<Rightarrow> []) @ dicts_of vs"
  by (simp add: dicts_of_def)

lemma for_each_structures:
  "for_each vs (import_structure (Some (Str k))) st = Inr st' \<Longrightarrow>
   st' = st\<lparr>db := (db st)(''structures'' := db st ''structures'' @ map (structure_row k) (dicts_of vs)),
            structure_count := structure_count st + length (dicts_of vs)\<rparr>"
proof (induction vs arbitrary: st)
  case Nil
  then show ?case by (simp add: dicts_of_def)
next
  case (Cons v vs)
  from Cons.prems obtain st1 where
    s1: "import_structure (Some (Str k)) v st = Inr st1"
    and r: "for_each vs (import_structure (Some (Str k))) st1 = Inr st'"
    by (auto split: sum.splits)
  show ?case
    using Cons.IH [OF r] import_structure_effect [OF s1]
    by (cases v) (auto simp: dicts_of_Cons fun_eq_iff)
qed

lemma dicts_of_chars: "dicts_of (map (\<lambda>c. Str [c]) s) = []"
  by (induction s) (simp_all add: dicts_of_def)

lemma dicts_of_py_iter:
  "dicts_of (py_iter (list_if_dict v)) =
     (case v of Dict s \<Rightarrow> [s] | Lst l \<Rightarrow> dicts_of l | Str s \<Rightarrow> [])"
  by (cases v) (simp_all add: dicts_of_chars, simp add: dicts_of_def)

lemma site_plus_effect:
  assumes "map_of data ''id'' = Some (Str k)" and "k \<noteq> ''''"
    and "import_site_plus data st = Inr st'"
  shows "st' = st\<lparr>db := (db st)
            (''sites'' := map (\<lambda>r. if col r ''id'' = Text k
                                   then dict_set ''cur_owner_id'' (sql_of (map_of data ''cur_owner_id''))
                                          (dict_set ''civ_id'' (sql_of (map_of data ''civ_id'')) r)
                                   else r) (db st ''sites''),
             ''structures'' := db st ''structures'' @ map (structure_row k) (listed_structures data)),
          structure_count := structure_count st + length (listed_structures data)\<rparr>"
proof -
  let ?u = "st\<lparr>db := (db st)
            (''sites'' := map (\<lambda>r. if col r ''id'' = Text k
                                   then dict_set ''cur_owner_id'' (sql_of (map_of data ''cur_owner_id''))
                                          (dict_set ''civ_id'' (sql_of (map_of data ''civ_id'')) r)
                                   else r) (db st ''sites''))\<rparr>"
  from assms obtain st1 where
    u: "execute (update_where_id ''sites'' [''civ_id'', ''cur_owner_id'']
             [bind_param (map_of data ''civ_id''), bind_param (map_of data ''cur_owner_id''),
              bind_param (Some (Str k))]) st = Inr st1"
    and l: "(case get_or data ''structures'' (Dict []) of
               Dict structures \<Rightarrow>
                 for_each (py_iter (list_if_dict (get_or structures ''structure'' (Lst []))))
                   (import_structure (Some (Str k))) st1
             | _ \<Rightarrow> Inr st1) = Inr st'"
    by (auto simp: import_site_plus_def and_then_Inr)
  have st1: "st1 = ?u"
    using u
    by (auto simp: execute_Inr update_where_id_Inr sum_case_Inr dest!: bind_param_Inr)
       (simp add: set_columns_def cong: if_cong)
  show ?thesis
  proof (cases "map_of data ''structures''")
    case None
    then show ?thesis using l st1
      by (auto simp: get_or_def listed_structures_def fun_eq_iff)
  next
    case (Some sv)
    show ?thesis
    proof (cases sv)
      case (Dict structures)
      have f: "for_each (py_iter (list_if_dict (get_or structures ''structure'' (Lst []))))
                   (import_structure (Some (Str k))) st1 = Inr st'"
        using l Some Dict by (simp add: get_or_def)
      have "dicts_of (py_iter (list_if_dict (get_or structures ''structure'' (Lst [])))) =
              listed_structures data"
        using Some Dict
        by (auto simp: dicts_of_py_iter listed_structures_def get_or_def dicts_of_def
              split: option.splits pyval.splits)
      then show ?thesis using for_each_structures [OF f] st1 by (auto simp: fun_eq_iff)
    qed (use l st1 Some in \<open>auto simp: get_or_def listed_structures_def fun_eq_iff\<close>)
  qed
qed

lemma stream_elements_Cons:
  "stream_elements (elem # rest, err) callback st =
     (case callback (xml_to_dict elem) st of
        Inl e \<Rightarrow> Inl e
      | Inr st' \<Rightarrow>
          (case stream_elements (rest, err) callback st' of
             Inl e \<Rightarrow> Inl e
           | Inr r \<Rightarrow> Inr (Suc (fst r), snd r)))"
  by (auto simp: stream_elements_def split: sum.splits option.splits)

lemma stream_elements_Nil: "stream_elements ([], None) callback st = Inr (0, st)"
  by (simp add: stream_elements_def)

lemma flat_base: "xml_to_dict base_site_elem =
  [(''id'', Str ''42''), (''name'', Str ''ironhold''), (''type'', Str ''fortress''),
   (''coords'', Str ''3,4''), (''rectangle'', Str ''1,1:2,2'')]"
  by (simp add: base_site_elem_def add_value_def text_or_empty_def)

lemma flat_plus: "xml_to_dict plus_site_elem =
  [(''id'', Str ''42''), (''civ_id'', Str ''7''), (''cur_owner_id'', Str ''9''),
   (''structures'', Dict [(''structure'',
      Lst [Dict [(''id'', Str ''0''), (''type'', Str ''temple'')],
           Dict [(''id'', Str ''1''), (''type'', Str ''tower'')]])])]"
  by (simp add: plus_site_elem_def add_value_def text_or_empty_def)

lemma flat_two_containers: "xml_to_dict two_containers_elem =
  [(''id'', Str ''42''),
   (''structures'', Lst [Dict [(''structure'', Dict [(''id'', Str ''0'')])],
                         Dict [(''structure'', Dict [(''id'', Str ''1'')])]])]"
  by (simp add: two_containers_elem_def add_value_def text_or_empty_def)

lemma flat_leaf: "xml_to_dict event_site_leaf = []"
  by (simp add: event_site_leaf_def)

lemma import_base_site: "import_site (xml_to_dict base_site_elem) empty_state = Inr base_site_state"
  by (simp add: flat_base import_site_def execute_def insert_or_replace_def replace_row_def
        col_def empty_state_def base_site_state_def base_site_row_def)

lemma import_plus_site:
  "import_site_plus (xml_to_dict plus_site_elem) base_site_state = Inr plus_site_state"
  by (simp add: flat_plus import_site_plus_def import_structure_def and_then_def execute_def
        update_where_id_def insert_into_def set_columns_def get_or_def col_def
        empty_state_def base_site_state_def base_site_row_def plus_site_state_def fun_eq_iff)

lemma import_two_containers:
  "import_site_plus (xml_to_dict two_containers_elem) base_site_state = Inr owner_only_state"
  by (simp add: flat_two_containers import_site_plus_def import_structure_def and_then_def
        execute_def update_where_id_def insert_into_def set_columns_def get_or_def col_def
        empty_state_def base_site_state_def base_site_row_def owner_only_state_def fun_eq_iff)

section \<open>The second pass over sites\<close>

text \<open>
  Claim C5, as the code has it. Let a pass-2 site record carry the non-empty id \<open>k\<close>
  and let its import return. Then the \<^verbatim>\<open>sites\<close> table keeps its rows and their
  order; in every row whose id is \<open>k\<close> the columns \<^verbatim>\<open>civ_id\<close> and
  \<^verbatim>\<open>cur_owner_id\<close> hold the record's values (null when the record has none) and
  every other column is unchanged; every other row is unchanged. The rows appended
  to \<^verbatim>\<open>structures\<close> are, in document order, those of the \<^verbatim>\<open>structure\<close> children
  with child elements of their own inside the record's single \<^verbatim>\<open>structures\<close>
  container, each with \<open>k\<close> as its \<^verbatim>\<open>site_id\<close>. No other table changes.
\<close>

theorem site_plus_sets_owner_and_adds_structures:
  assumes "map_of data ''id'' = Some (Str k)" and "k \<noteq> ''''"
    and "import_site_plus data st = Inr st'"
  shows "length (db st' ''sites'') = length (db st ''sites'')
    \<and> (\<forall>i<length (db st ''sites''). \<forall>c.
          col (db st' ''sites'' ! i) c =
            (if col (db st ''sites'' ! i) ''id'' = Text k \<and> c = ''civ_id''
               then sql_of (map_of data ''civ_id'')
             else if col (db st ''sites'' ! i) ''id'' = Text k \<and> c = ''cur_owner_id''
               then sql_of (map_of data ''cur_owner_id'')
             else col (db st ''sites'' ! i) c))
    \<and> db st' ''structures'' =
          db st ''structures'' @ map (structure_row k) (listed_structures data)
    \<and> (\<forall>t. t \<noteq> ''sites'' \<and> t \<noteq> ''structures'' \<longrightarrow> db st' t = db st t)"
  unfolding site_plus_effect [OF assms]
  by (auto simp: col_dict_set)

theorem site_plus_sets_owner_and_adds_structures_witness:
  "import_site (xml_to_dict base_site_elem) empty_state = Inr base_site_state
   \<and> import_site_plus (xml_to_dict plus_site_elem) base_site_state = Inr plus_site_state
   \<and> length (db plus_site_state ''sites'') = 1
   \<and> map (col (db plus_site_state ''sites'' ! 0))
         [''id'', ''name'', ''type'', ''coords'', ''rectangle'', ''civ_id'', ''cur_owner_id''] =
       [Text ''42'', Text ''ironhold'', Text ''fortress'', Text ''3,4'', Text ''1,1:2,2'',
        Text ''7'', Text ''9'']
   \<and> db plus_site_state ''structures'' =
       [[(''local_id'', Text ''0''), (''site_id'', Text ''42''), (''name'', Null),
         (''name2'', Null), (''type'', Text ''temple'')],
        [(''local_id'', Text ''1''), (''site_id'', Text ''42''), (''name'', Null),
         (''name2'', Null), (''type'', Text ''tower'')]]"
proof -
  have i: "map_of (xml_to_dict plus_site_elem) ''id'' = Some (Str ''42'')"
    by (simp add: flat_plus)
  have n: "''42'' \<noteq> ''''" by simp
  note t = site_plus_sets_owner_and_adds_structures [OF i n import_plus_site]
  have b: "db base_site_state ''sites'' = [base_site_row]" "db base_site_state ''structures'' = []"
    by (simp_all add: base_site_state_def empty_state_def)
  have l: "length (db plus_site_state ''sites'') = 1" using t b by simp
  have c: "\<forall>c. col (db plus_site_state ''sites'' ! 0) c =
            (if c = ''civ_id'' then Text ''7'' else if c = ''cur_owner_id'' then Text ''9''
             else col base_site_row c)"
    using t b by (simp add: flat_plus sql_of_def col_def base_site_row_def)
  have s: "db plus_site_state ''structures'' =
             map (structure_row ''42'') (listed_structures (xml_to_dict plus_site_elem))"
    using t b by simp
  have m: "map (col (db plus_site_state ''sites'' ! 0))
         [''id'', ''name'', ''type'', ''coords'', ''rectangle'', ''civ_id'', ''cur_owner_id''] =
       [Text ''42'', Text ''ironhold'', Text ''fortress'', Text ''3,4'', Text ''1,1:2,2'',
        Text ''7'', Text ''9'']"
    using c by (simp add: col_def base_site_row_def)
  show ?thesis
    using import_base_site import_plus_site l m
    by (simp add: s flat_plus listed_structures_def dicts_of_def structure_row_def sql_of_def)
qed

text \<open>
  Not every structure the record lists is inserted: a site element with two
  \<^verbatim>\<open>structures\<close> containers flattens that key to a list, which the importer's
  \<^verbatim>\<open>isinstance(structures, dict)\<close> test passes over, so neither structure gets a row.
\<close>

theorem site_plus_ignores_repeated_structures_container:
  "import_site_plus (xml_to_dict two_containers_elem) base_site_state = Inr owner_only_state
   \<and> db owner_only_state ''structures'' = []
   \<and> map tag (children two_containers_elem) = [''id'', ''structures'', ''structures'']
   \<and> map (map tag \<circ> children) (tl (children two_containers_elem)) = [[''structure''], [''structure'']]"
  using import_two_containers
  by (simp add: owner_only_state_def empty_state_def two_containers_elem_def)

text \<open>
  Claim C10. A flattened site record whose \<^verbatim>\<open>id\<close> is absent or the empty string
  leaves the state as it is (no update, no structure row, no count), and the pass
  goes on with the records behind it, counting the skipped one.
\<close>

theorem site_plus_skips_record_without_id:
  assumes "map_of data ''id'' = None \<or> map_of data ''id'' = Some (Str '''')"
    and "xml_to_dict elem = data"
  shows "import_site_plus data st = Inr st
       \<and> stream_elements (elem # rest, err) import_site_plus st =
           (case stream_elements (rest, err) import_site_plus st of
              Inl e \<Rightarrow> Inl e
            | Inr r \<Rightarrow> Inr (Suc (fst r), snd r))"
proof -
  have skip: "import_site_plus data st = Inr st"
    using assms(1) by (auto simp: import_site_plus_def)
  then show ?thesis using assms(2) by (simp add: stream_elements_Cons)
qed

theorem site_plus_skips_record_without_id_witness:
  "import_site_plus (xml_to_dict event_site_leaf) base_site_state = Inr base_site_state
   \<and> stream_elements ([event_site_leaf, plus_site_elem], None) import_site_plus base_site_state =
       Inr (2, plus_site_state)"
proof -
  have a: "map_of (xml_to_dict event_site_leaf) ''id'' = None
           \<or> map_of (xml_to_dict event_site_leaf) ''id'' = Some (Str '''')"
    by (simp add: flat_leaf)
  have r: "stream_elements ([plus_site_elem], None) import_site_plus base_site_state =
             Inr (1, plus_site_state)"
    by (simp add: stream_elements_Cons stream_elements_Nil import_plus_site)
  show ?thesis
    using site_plus_skips_record_without_id [OF a refl, of base_site_state "[plus_site_elem]" None]
    by (simp add: r)
qed




section \<open>Repeatable fields\<close>








section \<open>Upserts into the dimension tables\<close>

subsection \<open>Composition rules\<close>






























subsection \<open>Upserts on one table\<close>




















lemma find_fold_None:
  "fst (fold (\<lambda>f (legends_file, legends_plus_file).
             if contains ''legends_plus'' (lower (fst f)) then (legends_file, Some f)
             else if contains ''legends'' (lower (fst f)) then (Some f, legends_plus_file)
             else (legends_file, legends_plus_file)) files (a, b)) = None
     \<longleftrightarrow> a = None \<and> (\<forall>f \<in> set files. \<not> is_base f)"
  "snd (fold (\<lambda>f (legends_file, legends_plus_file).
             if contains ''legends_plus'' (lower (fst f)) then (legends_file, Some f)
             else if contains ''legends'' (lower (fst f)) then (Some f, legends_plus_file)
             else (legends_file, legends_plus_file)) files (a, b)) = None
     \<longleftrightarrow> b = None \<and> (\<forall>f \<in> set files. \<not> is_plus f)"
  by (induction files arbitrary: a b) (auto simp: is_base_def is_plus_def)

lemma find_xml_files_None:
  "fst (find_xml_files files) = None \<longleftrightarrow> (\<forall>f \<in> set files. \<not> is_base f)"
  "snd (find_xml_files files) = None \<longleftrightarrow> (\<forall>f \<in> set files. \<not> is_plus f)"
  by (simp_all add: find_xml_files_def find_fold_None)

section \<open>The import run\<close>

text \<open>
  Claim C9. If no file name contains \<^verbatim>\<open>legends_plus\<close>, or every file name that
  contains \<^verbatim>\<open>legends\<close> contains \<^verbatim>\<open>legends_plus\<close> too (names compared in lower
  case), the run returns \<^verbatim>\<open>False\<close> and nothing has changed: neither the database
  nor the temporary files.
\<close>

theorem missing_file_aborts_before_any_change:
  assumes "(\<forall>f \<in> set (xml_files sys). \<not> contains ''legends_plus'' (lower (fst f)))
         \<or> (\<forall>f \<in> set (xml_files sys). contains ''legends'' (lower (fst f)) \<longrightarrow>
                contains ''legends_plus'' (lower (fst f)))"
  shows "run_import iterparse sys = (Returned False, sys)"
proof -
  have "fst (find_xml_files (xml_files sys)) = None \<or> snd (find_xml_files (xml_files sys)) = None"
    using assms by (auto simp: find_xml_files_None is_base_def is_plus_def)
  then show ?thesis
    by (cases "find_xml_files (xml_files sys)") (auto simp: run_import_def split: option.splits)
qed

lemma lower_names:
  "lower ''legends.xml'' = ''legends.xml''"
  "lower ''legends_plus.xml'' = ''legends_plus.xml''"
  "lower ''notes.xml'' = ''notes.xml''"
  by (simp_all add: lower_def)

theorem missing_file_aborts_before_any_change_witness:
  "run_import failing_parser base_file_only_system = (Returned False, base_file_only_system)
   \<and> world_db base_file_only_system ''sites'' = [base_site_row]"
proof -
  have "\<forall>f \<in> set (xml_files base_file_only_system). \<not> contains ''legends_plus'' (lower (fst f))"
    by (simp add: base_file_only_system_def lower_names)
  then have "run_import failing_parser base_file_only_system = (Returned False, base_file_only_system)"
    by (intro missing_file_aborts_before_any_change) blast
  then show ?thesis
    by (simp add: base_file_only_system_def base_site_state_def empty_state_def)
qed









section \<open>The residual payload of an event\<close>

lemma hex_value_hex_digit: "n < 16 \<Longrightarrow> hex_value (hex_digit n) = Some n"
  by (auto simp: hex_value_def hex_digit_def Let_def)

lemma hex_value_zero: "hex_value CHR ''0'' = Some 0"
  by (simp add: hex_value_def)

lemma hex4_byte:
  "n < 256 \<Longrightarrow> hex4 CHR ''0'' CHR ''0'' (hex_digit (n div 16)) (hex_digit (n mod 16)) = Some n"
  by (simp add: hex4_def hex_value_zero hex_value_hex_digit)

lemma parse_chars_escape:
  "parse_chars (json_escape c @ rest) = cons_char c (parse_chars rest)"
proof -
  let ?n = "of_char c :: nat"
  have n: "?n < 256" by simp
  consider "c = CHR 0x22" | "c = CHR 0x5C" | "c = CHR 0x0A" | "c = CHR 0x0D" | "c = CHR 0x09"
    | "c = CHR 0x08" | "c = CHR 0x0C"
    | "c \<noteq> CHR 0x22" "c \<noteq> CHR 0x5C" "0x20 \<le> ?n" "?n \<le> 0x7E"
    | "c \<noteq> CHR 0x22" "c \<noteq> CHR 0x5C" "c \<noteq> CHR 0x0A" "c \<noteq> CHR 0x0D" "c \<noteq> CHR 0x09"
      "c \<noteq> CHR 0x08" "c \<noteq> CHR 0x0C" "\<not> (0x20 \<le> ?n \<and> ?n \<le> 0x7E)"
    by blast
  then show ?thesis
  proof cases
    case 8
    then have "json_escape c = [c]"
      by (auto simp: json_escape_def)
    moreover have "\<not> ?n < 0x20" using 8 by simp
    ultimately show ?thesis using 8 by simp
  next
    case 9
    then have e: "json_escape c = [CHR 0x5C, CHR ''u'', CHR ''0'', CHR ''0'',
            hex_digit (?n div 16), hex_digit (?n mod 16)]"
      by (simp add: json_escape_def)
    have "char_of ?n = c" by simp
    then show ?thesis using hex4_byte [OF n] n by (simp add: e)
  qed (simp_all add: json_escape_def unescape_def)
qed

lemma parse_chars_escaped:
  "parse_chars (concat (map json_escape s) @ CHR 0x22 # rest) = Some (s, rest)"
  by (induction s) (simp_all add: parse_chars_escape cons_char_def del: parse_chars.simps(2), simp)

lemma skip_ws_keep:
  "c \<noteq> CHR '' '' \<Longrightarrow> c \<noteq> CHR 0x09 \<Longrightarrow> c \<noteq> CHR 0x0A \<Longrightarrow> c \<noteq> CHR 0x0D \<Longrightarrow>
   skip_ws (c # r) = c # r"
  by (simp add: skip_ws_def)

lemma skip_ws_space: "skip_ws (CHR '' '' # r) = skip_ws r"
  by (simp add: skip_ws_def)

lemma skip_ws_Nil: "skip_ws [] = []"
  by (simp add: skip_ws_def)

lemma join_Cons: "ys \<noteq> [] \<Longrightarrow> join sep (y # ys) = y @ sep @ join sep ys"
  by (cases ys) auto

lemma json_dumps_head:
  "\<exists>c r. json_dumps v = c # r \<and> (c = CHR 0x22 \<or> c = CHR ''['' \<or> c = CHR ''{'')"
  by (cases v) (simp_all add: json_string_def)

lemma parse_value_space: "parse_value n (CHR '' '' # s) = parse_value n s"
  by (cases n) (simp_all add: skip_ws_space)

lemma parse_items_space: "parse_items n (CHR '' '' # s) = parse_items n s"
  by (cases n) (simp_all add: parse_value_space)

lemma parse_members_space: "parse_members n (CHR '' '' # s) = parse_members n s"
  by (cases n) (simp_all add: skip_ws_space)

lemma parse_value_string:
  "parse_value (Suc m) (json_string s @ rest) = Some (Str s, rest)"
  by (simp add: json_string_def skip_ws_keep parse_chars_escaped)

lemma parse_items_join:
  assumes "vs \<noteq> []"
    and "\<And>v n rest. v \<in> set vs \<Longrightarrow> length (json_dumps v) \<le> n \<Longrightarrow>
           parse_value n (json_dumps v @ rest) = Some (v, rest)"
    and "length (join '', '' (map json_dumps vs)) < n"
  shows "parse_items n (join '', '' (map json_dumps vs) @ CHR '']'' # rest) = Some (vs, rest)"
  using assms
proof (induction vs arbitrary: n rule: list_nonempty_induct)
  case (single v)
  then obtain m where n: "n = Suc m" and l: "length (json_dumps v) \<le> m"
    by (cases n) auto
  have "parse_value m (json_dumps v @ CHR '']'' # rest) = Some (v, CHR '']'' # rest)"
    using single(1) [of v m] l by simp
  then show ?case by (simp add: n skip_ws_keep)
next
  case (cons v vs)
  have j: "join '', '' (map json_dumps (v # vs)) =
           json_dumps v @ '', '' @ join '', '' (map json_dumps vs)"
    using cons.hyps by (simp add: join_Cons)
  obtain m where n: "n = Suc m" and l: "length (json_dumps v) \<le> m"
    and l2: "length (join '', '' (map json_dumps vs)) < m"
    using cons.prems(2) unfolding j by (cases n) auto
  have v: "parse_value m (json_dumps v @ '', '' @ join '', '' (map json_dumps vs) @ CHR '']'' # rest)
           = Some (v, '', '' @ join '', '' (map json_dumps vs) @ CHR '']'' # rest)"
    using cons.prems(1) [of v m] l by simp
  have r: "parse_items m (join '', '' (map json_dumps vs) @ CHR '']'' # rest) = Some (vs, rest)"
    using cons.IH [OF _ l2] cons.prems(1) by simp
  show ?case
    unfolding j n using v r by (simp add: skip_ws_keep parse_items_space)
qed

lemma parse_members_join:
  assumes "d \<noteq> []"
    and "\<And>kv n rest. kv \<in> set d \<Longrightarrow> length (json_dumps (snd kv)) \<le> n \<Longrightarrow>
           parse_value n (json_dumps (snd kv) @ rest) = Some (snd kv, rest)"
    and "length (join '', '' (map member d)) < n"
  shows "parse_members n (join '', '' (map member d) @ CHR ''}'' # rest) = Some (d, rest)"
  using assms
proof (induction d arbitrary: n rule: list_nonempty_induct)
  case (single kv)
  then obtain m where n: "n = Suc m" and l: "length (json_dumps (snd kv)) \<le> m"
    by (cases n) (auto simp: member_def)
  have "parse_value m (json_dumps (snd kv) @ CHR ''}'' # rest) = Some (snd kv, CHR ''}'' # rest)"
    using single(1) [of kv m] l by simp
  then show ?case
    by (simp add: n member_def json_string_def skip_ws_keep parse_chars_escaped parse_value_space)
next
  case (cons kv d)
  have j: "join '', '' (map member (kv # d)) = member kv @ '', '' @ join '', '' (map member d)"
    using cons.hyps by (simp add: join_Cons)
  obtain m where n: "n = Suc m" and l: "length (json_dumps (snd kv)) \<le> m"
    and l2: "length (join '', '' (map member d)) < m"
    using cons.prems(2) unfolding j by (cases n) (auto simp: member_def)
  have v: "parse_value m (json_dumps (snd kv) @ '', '' @ join '', '' (map member d) @ CHR ''}'' # rest)
           = Some (snd kv, '', '' @ join '', '' (map member d) @ CHR ''}'' # rest)"
    using cons.prems(1) [of kv m] l by simp
  have r: "parse_members m (join '', '' (map member d) @ CHR ''}'' # rest) = Some (d, rest)"
    using cons.IH [OF _ l2] cons.prems(1) by simp
  show ?case
    unfolding j n using v r
    by (simp add: member_def json_string_def skip_ws_keep parse_chars_escaped parse_value_space
          parse_members_space)
qed

lemma fold_dict_set_fresh:
  "distinct (map fst d) \<Longrightarrow> fst ` set d \<inter> fst ` set acc = {} \<Longrightarrow>
   fold (\<lambda>kv. dict_set (fst kv) (snd kv)) d acc = acc @ d"
proof (induction d arbitrary: acc)
  case Nil
  then show ?case by simp
next
  case (Cons kv d)
  have f: "fst kv \<notin> fst ` set acc" using Cons.prems(2) by auto
  have a: "dict_set (fst kv) (snd kv) acc = acc @ [kv]"
    using f by (induction acc) auto
  have "fold (\<lambda>kv. dict_set (fst kv) (snd kv)) d (acc @ [kv]) = (acc @ [kv]) @ d"
    using Cons.prems by (intro Cons.IH) auto
  then show ?case by (simp add: a)
qed

lemma parse_value_dumps:
  "wf_val v \<Longrightarrow> length (json_dumps v) \<le> n \<Longrightarrow>
   parse_value n (json_dumps v @ rest) = Some (v, rest)"
proof (induction v arbitrary: n rest)
  case (Str s)
  then obtain m where "n = Suc m" by (cases n) (auto simp: json_string_def)
  then show ?case using parse_value_string [of m s rest] by simp
next
  case (Lst l)
  obtain m where n: "n = Suc m" and m: "length (join '', '' (map json_dumps l)) < m"
    using Lst.prems(2) by (cases n) auto
  show ?case
  proof (cases "l = []")
    case True
    then show ?thesis by (simp add: n skip_ws_keep)
  next
    case False
    have H: "\<And>v n rest. v \<in> set l \<Longrightarrow> length (json_dumps v) \<le> n \<Longrightarrow>
           parse_value n (json_dumps v @ rest) = Some (v, rest)"
      using Lst.IH Lst.prems(1) by simp
    have p: "parse_items m (join '', '' (map json_dumps l) @ CHR '']'' # rest) = Some (l, rest)"
      using parse_items_join [OF False H m] .
    obtain v vs where l: "l = v # vs" using False by (cases l) auto
    obtain c r where h: "json_dumps v = c # r" "c = CHR 0x22 \<or> c = CHR ''['' \<or> c = CHR ''{''"
      using json_dumps_head by blast
    have "\<exists>c r. join '', '' (map json_dumps l) = c # r \<and>
                (c = CHR 0x22 \<or> c = CHR ''['' \<or> c = CHR ''{'')"
      using h l by (cases vs) auto
    then obtain c' r' where j: "join '', '' (map json_dumps l) = c' # r'"
      and c': "c' = CHR 0x22 \<or> c' = CHR ''['' \<or> c' = CHR ''{''" by blast
    have s: "skip_ws (c' # r' @ CHR '']'' # rest) = c' # r' @ CHR '']'' # rest"
      using c' by (auto simp: skip_ws_keep)
    show ?thesis
      using p c' unfolding n by (auto simp: j s skip_ws_keep)
  qed
next
  case (Dict d)
  have dumps: "json_dumps (Dict d) = ''{'' @ join '', '' (map member d) @ ''}''"
    by (simp add: member_def [abs_def])
  obtain m where n: "n = Suc m" and m: "length (join '', '' (map member d)) < m"
    using Dict.prems(2) unfolding dumps by (cases n) auto
  show ?case
  proof (cases "d = []")
    case True
    then show ?thesis by (simp add: n skip_ws_keep)
  next
    case False
    have H: "\<And>kv n rest. kv \<in> set d \<Longrightarrow> length (json_dumps (snd kv)) \<le> n \<Longrightarrow>
           parse_value n (json_dumps (snd kv) @ rest) = Some (snd kv, rest)"
    proof -
      fix kv n rest
      assume kv: "kv \<in> set d" and l: "length (json_dumps (snd kv)) \<le> n"
      have "snd kv \<in> Basic_BNFs.snds kv" by (cases kv) simp
      moreover have "wf_val (snd kv)" using Dict.prems(1) kv by simp
      ultimately show "parse_value n (json_dumps (snd kv) @ rest) = Some (snd kv, rest)"
        using Dict.IH [OF kv] l by blast
    qed
    have p: "parse_members m (join '', '' (map member d) @ CHR ''}'' # rest) = Some (d, rest)"
      using parse_members_join [OF False H m] .
    obtain kv d' where d: "d = kv # d'" using False by (cases d) auto
    have "\<exists>r. join '', '' (map member d) = CHR 0x22 # r"
      using d by (cases d') (auto simp: member_def json_string_def)
    then obtain r' where j: "join '', '' (map member d) = CHR 0x22 # r'" by blast
    have f: "fold (\<lambda>kv. dict_set (fst kv) (snd kv)) d [] = d"
      using fold_dict_set_fresh [of d "[]"] Dict.prems(1) by simp
    show ?thesis
      using p unfolding n dumps by (simp add: j skip_ws_keep f)
  qed
qed

lemma json_loads_dumps: "wf_val v \<Longrightarrow> json_loads (json_dumps v) = Some v"
  using parse_value_dumps [of v "length (json_dumps v)" "[]"]
  by (simp add: json_loads_def skip_ws_Nil)

lemma set_dict_set: "set (dict_set k v r) \<subseteq> insert (k, v) (set r)"
  by (induction r) (auto split: if_splits)

lemma wf_add_value:
  assumes "\<forall>kv \<in> set r. wf_val (snd kv)" and "wf_val v"
  shows "\<forall>kv \<in> set (add_value k v r). wf_val (snd kv)"
proof (cases "map_of r k")
  case None
  then show ?thesis using assms set_dict_set [of k v r] by (auto simp: add_value_def)
next
  case (Some old)
  then have "(k, old) \<in> set r" by (rule map_of_SomeD)
  then have o: "wf_val old" using assms(1) by force
  show ?thesis
  proof (cases old)
    case (Lst vs)
    then show ?thesis
      using Some o assms set_dict_set [of k "Lst (vs @ [v])" r] by (auto simp: add_value_def)
  qed (use Some o assms set_dict_set [of k "Lst [old, v]" r] in \<open>auto simp: add_value_def\<close>)
qed

lemma wf_fold_add_value:
  "\<forall>c \<in> set cs. wf_val (child_value c) \<Longrightarrow> \<forall>kv \<in> set r. wf_val (snd kv) \<Longrightarrow>
   \<forall>kv \<in> set (fold (\<lambda>c. add_value (tag c) (child_value c)) cs r). wf_val (snd kv)"
proof (induction cs arbitrary: r)
  case Nil
  then show ?case by simp
next
  case (Cons c cs)
  have "\<forall>kv \<in> set (add_value (tag c) (child_value c) r). wf_val (snd kv)"
    using Cons.prems by (intro wf_add_value) simp_all
  then show ?case using Cons.IH [of "add_value (tag c) (child_value c) r"] Cons.prems(1) by simp
qed

lemma wf_xml_to_dict: "wf_val (Dict (xml_to_dict e))"
proof (induction e)
  case (Element tg tx cs)
  have "\<forall>c \<in> set cs. wf_val (child_value c)"
    using Element by (auto simp: child_value_def)
  then have "\<forall>kv \<in> set (xml_to_dict (Element tg tx cs)). wf_val (snd kv)"
    unfolding xml_to_dict_fold using wf_fold_add_value [of cs "[]"] by simp
  then show ?case using distinct_keys_xml_to_dict [of "Element tg tx cs"] by simp
qed

lemma wf_filter: "wf_val (Dict d) \<Longrightarrow> wf_val (Dict (filter P d))"
  by (auto simp: distinct_map_filter)

lemma map_of_filter_key:
  "P k \<Longrightarrow> map_of (filter (\<lambda>kv. P (fst kv)) d) k = map_of d k"
  by (induction d) auto

lemma import_event_effect:
  assumes "import_event data st = Inr st'"
  shows "\<exists>row. db st' ''historical_events'' = db st ''historical_events'' @ [row]
     \<and> col row ''extra_data'' =
         (if filter (\<lambda>kv. fst kv \<notin> set known_fields) data = [] then Null
          else Text (json_dumps (Dict (filter (\<lambda>kv. fst kv \<notin> set known_fields) data))))"
  using assms
  by (auto simp: import_event_def Let_def execute_Inr insert_into_Inr sum_case_Inr col_def
        simp del: json_dumps.simps split: if_splits)

text \<open>
  Claim C6. Let the import of an event record return. It appends one row to
  \<^verbatim>\<open>historical_events\<close>. The residual payload is the record restricted to the keys
  outside the recognized set, so every such field is in it with its value. When
  there is no such field the row's \<^verbatim>\<open>extra_data\<close> is null; otherwise it is a text
  that \<^verbatim>\<open>json.loads\<close> decodes to exactly the residual payload.
\<close>

theorem event_residual_payload:
  assumes "import_event (xml_to_dict elem) st = Inr st'"
  shows "\<exists>row. db st' ''historical_events'' = db st ''historical_events'' @ [row]
     \<and> (let extra = filter (\<lambda>kv. fst kv \<notin> set known_fields) (xml_to_dict elem) in
          (\<forall>k v. k \<notin> set known_fields \<and> map_of (xml_to_dict elem) k = Some v \<longrightarrow>
                 map_of extra k = Some v)
        \<and> (extra = [] \<longrightarrow> col row ''extra_data'' = Null)
        \<and> (extra \<noteq> [] \<longrightarrow>
             (\<exists>payload. col row ''extra_data'' = Text payload
                       \<and> json_loads payload = Some (Dict extra))))"
proof -
  let ?extra = "filter (\<lambda>kv. fst kv \<notin> set known_fields) (xml_to_dict elem)"
  obtain row where r: "db st' ''historical_events'' = db st ''historical_events'' @ [row]"
    and c: "col row ''extra_data'' =
              (if ?extra = [] then Null else Text (json_dumps (Dict ?extra)))"
    using import_event_effect [OF assms] by blast
  have w: "wf_val (Dict ?extra)" using wf_xml_to_dict by (rule wf_filter)
  have l: "json_loads (json_dumps (Dict ?extra)) = Some (Dict ?extra)"
    using json_loads_dumps [OF w] .
  have m: "\<forall>k v. k \<notin> set known_fields \<and> map_of (xml_to_dict elem) k = Some v \<longrightarrow>
                 map_of ?extra k = Some v"
    using map_of_filter_key [of "\<lambda>k. k \<notin> set known_fields" _ "xml_to_dict elem"] by simp
  show ?thesis
    using r c l m by (auto simp: Let_def simp del: json_dumps.simps)
qed

lemma flat_custom_event: "xml_to_dict custom_event_elem =
   [(''id'', Str ''7''), (''year'', Str ''102''), (''type'', Str ''hf died''),
    (''custom_field'', Str ''value'')]"
  by (simp add: custom_event_elem_def add_value_def text_or_empty_def)

lemma import_custom_event:
  "import_event (xml_to_dict custom_event_elem) empty_state = Inr custom_event_state"
  by (simp add: flat_custom_event import_event_def known_fields_def py_or_def execute_def
        insert_into_def json_string_def json_escape_def custom_payload_def custom_event_state_def
        empty_state_def Let_def)

theorem event_residual_payload_witness:
  "import_event (xml_to_dict custom_event_elem) empty_state = Inr custom_event_state
   \<and> col (last (db custom_event_state ''historical_events'')) ''extra_data'' = Text custom_payload
   \<and> json_loads custom_payload = Some (Dict [(''custom_field'', Str ''value'')])"
proof -
  have e: "filter (\<lambda>kv. fst kv \<notin> set known_fields) (xml_to_dict custom_event_elem) =
             [(''custom_field'', Str ''value'')]"
    by (simp add: flat_custom_event known_fields_def)
  obtain row payload where
    r: "db custom_event_state ''historical_events'' = db empty_state ''historical_events'' @ [row]"
    and p: "col row ''extra_data'' = Text payload"
    and j: "json_loads payload = Some (Dict [(''custom_field'', Str ''value'')])"
    using event_residual_payload [OF import_custom_event] unfolding e Let_def by auto
  have c: "col (last (db custom_event_state ''historical_events'')) ''extra_data'' = Text custom_payload"
    by (simp add: custom_event_state_def col_def)
  have "row = last (db custom_event_state ''historical_events'')" using r by simp
  then have "payload = custom_payload" using p c by simp
  then show ?thesis using import_custom_event c j by simp
qed

end
